theory Spec2Isabelle
  imports Main "HOL-Library.Word" "HOL-Library.Sublist"
begin

unbundle bit_operations_syntax

section \<open>Python primitives used by scripts/setup.py\<close>

text \<open>
  The script works on Python \<open>str\<close> and \<open>int\<close> values. A \<^typ>\<open>char\<close> stands for a
  Python character with code point below 256, an \<^typ>\<open>int\<close> for a Python integer.
  Every text literal of the script is ASCII apart from the two status marks of the console
  output, which is not part of the model.
\<close>

type_synonym byte = "8 word"

text \<open>\<open>str.isspace\<close> on the code points below 256; these are the characters that
  \<open>str.strip()\<close> removes.\<close>

definition isspace :: "char \<Rightarrow> bool" where
  "isspace c \<longleftrightarrow> (of_char c :: nat) \<in> {9, 10, 11, 12, 13, 28, 29, 30, 31, 32, 133, 160}"

text \<open>\<open>s.strip()\<close>\<close>

definition strip :: "string \<Rightarrow> string" where
  "strip s = rev (dropWhile isspace (rev (dropWhile isspace s)))"

text \<open>\<open>s.lower()\<close>: the upper-case letters below 256 are A-Z and the Latin-1 range
  00C0-00DE without the multiplication sign 00D7; each lies 32 below its lower-case letter.\<close>

definition lower_char :: "char \<Rightarrow> char" where
  "lower_char c =
     (let n = (of_char c :: nat)
      in if (65 \<le> n \<and> n \<le> 90) \<or> (192 \<le> n \<and> n \<le> 222 \<and> n \<noteq> 215) then char_of (n + 32) else c)"

definition lower :: "string \<Rightarrow> string" where
  "lower s = map lower_char s"

text \<open>\<open>str(n)\<close> for an integer: decimal digits, a minus sign for negative numbers.\<close>

fun dec_digits :: "nat \<Rightarrow> string" where
  "dec_digits n =
     (if n < 10 then [''0123456789'' ! n]
      else dec_digits (n div 10) @ [''0123456789'' ! (n mod 10)])"

declare dec_digits.simps [simp del]

definition str :: "int \<Rightarrow> string" where
  "str n = (if n < 0 then ''-'' else '''') @ dec_digits (nat \<bar>n\<bar>)"

text \<open>\<open>hex(n)\<close>: sign, the prefix \<open>0x\<close>, lower-case digits without leading zeros.\<close>

fun hex_digits :: "nat \<Rightarrow> string" where
  "hex_digits n =
     (if n < 16 then [''0123456789abcdef'' ! n]
      else hex_digits (n div 16) @ [''0123456789abcdef'' ! (n mod 16)])"

declare hex_digits.simps [simp del]

definition hex :: "int \<Rightarrow> string" where
  "hex n = (if n < 0 then ''-'' else '''') @ ''0x'' @ hex_digits (nat \<bar>n\<bar>)"

text \<open>
  \<open>int(s, 16)\<close>. CPython skips white space at both ends (of the characters below 256: tab
  to carriage return, space, 0085 and 00A0, but not 001C-001F), reads an optional sign, an
  optional prefix \<open>0x\<close> or \<open>0X\<close> with at most one underscore after it, and then hexadecimal
  digits, where single underscores may stand between two digits. Anything else raises
  \<open>ValueError\<close>, which is \<open>None\<close> here.
\<close>

definition int_space :: "char \<Rightarrow> bool" where
  "int_space c \<longleftrightarrow> (of_char c :: nat) \<in> {9, 10, 11, 12, 13, 32, 133, 160}"

definition digit16 :: "char \<Rightarrow> nat option" where
  "digit16 c =
     (let n = (of_char c :: nat)
      in if 48 \<le> n \<and> n \<le> 57 then Some (n - 48)
         else if 97 \<le> n \<and> n \<le> 102 then Some (n - 87)
         else if 65 \<le> n \<and> n \<le> 70 then Some (n - 55)
         else None)"

text \<open>The digits after sign and prefix: \<open>prev\<close> tells whether the character before
  was an underscore (or the start of the digits, where an underscore is refused as well);
  \<open>acc\<close> is the value read so far.\<close>

fun digits16 :: "bool \<Rightarrow> nat \<Rightarrow> string \<Rightarrow> nat option" where
  "digits16 prev acc [] = (if prev then None else Some acc)"
| "digits16 prev acc (c # cs) =
     (if c = CHR ''_'' then (if prev then None else digits16 True acc cs)
      else case digit16 c of
             None \<Rightarrow> None
           | Some d \<Rightarrow> digits16 False (16 * acc + d) cs)"

definition int16 :: "string \<Rightarrow> int option" where
  "int16 s =
     (let t = rev (dropWhile int_space (rev (dropWhile int_space s)));
          neg = (t \<noteq> [] \<and> hd t = CHR ''-'');
          u = (if t \<noteq> [] \<and> (hd t = CHR ''+'' \<or> hd t = CHR ''-'') then tl t else t);
          v = (if take 2 u = ''0x'' \<or> take 2 u = ''0X''
               then (if take 1 (drop 2 u) = ''_'' then drop 3 u else drop 2 u)
               else u)
      in case digits16 True 0 v of
           None \<Rightarrow> None
         | Some n \<Rightarrow> Some (if neg then - int n else int n))"

text \<open>\<open>s.encode()\<close>: UTF-8, one byte below 128 and two bytes from 128 to 255.\<close>

definition encode_char :: "char \<Rightarrow> byte list" where
  "encode_char c =
     (let n = (of_char c :: nat)
      in if n < 128 then [of_nat n] else [of_nat (192 + n div 64), of_nat (128 + n mod 64)])"

definition encode :: "string \<Rightarrow> byte list" where
  "encode s = concat (map encode_char s)"

text \<open>\<open>int.from_bytes(bs, 'big')\<close>\<close>

definition from_bytes_big :: "byte list \<Rightarrow> int" where
  "from_bytes_big bs = foldl (\<lambda>acc b. 256 * acc + uint b) 0 bs"


section \<open>The external programs\<close>

text \<open>
  What the program \<open>starkli\<close> does with its arguments, as the script meets it: it runs
  and exits with status 0, leaving its standard output; it runs and exits with another
  status; it cannot be started (it is not installed, or the operating system refuses the
  call); or it runs and its output is no text in the encoding of the locale.
\<close>

datatype proc_result = Completed string | Failed | NotStarted | Undecodable

text \<open>
  The surroundings of a run: the program \<open>starkli\<close>, the digest
  \<open>hashlib.sha256(m).digest()\<close>, and the paths that \<open>open(path, 'w')\<close> accepts. The
  console is taken to accept every \<open>print\<close>, and an opened file every \<open>write\<close>.
\<close>

record externals =
  starkli :: "string list \<Rightarrow> proc_result"
  sha256 :: "byte list \<Rightarrow> byte list"
  writable :: "string \<Rightarrow> bool"

text \<open>The exceptions that can end the script.\<close>

datatype error =
  SystemExit nat | ValueError | IndexError | CalledProcessError | OSError | UnicodeDecodeError

text \<open>
  \<open>subprocess.run(['starkli'] + args, capture_output=True, text=True, check=True)\<close>:
  the captured standard output, or the exception raised. An argument that holds the
  character with code 0 is refused with \<open>ValueError\<close> before the program is looked for;
  a program that cannot be started raises \<open>FileNotFoundError\<close> or another \<open>OSError\<close>;
  output that cannot be decoded raises \<open>UnicodeDecodeError\<close>, whatever the exit status;
  \<open>check=True\<close> turns an exit status other than 0 into \<open>CalledProcessError\<close>.
\<close>

definition subprocess_run :: "externals \<Rightarrow> string list \<Rightarrow> error + string" where
  "subprocess_run ext args =
     (if CHR 0x00 \<in> set (concat args) then Inl ValueError
      else case starkli ext args of
             Completed stdout \<Rightarrow> Inr stdout
           | Failed \<Rightarrow> Inl CalledProcessError
           | NotStarted \<Rightarrow> Inl OSError
           | Undecodable \<Rightarrow> Inl UnicodeDecodeError)"

text \<open>\<open>starkli_to_felt\<close>, lines 11-23: \<open>CalledProcessError\<close> is caught, a message is
  printed and the program ends with \<open>sys.exit(1)\<close>. No other exception is caught.\<close>

definition starkli_to_felt :: "externals \<Rightarrow> string \<Rightarrow> error + string" where
  "starkli_to_felt ext string =
     (case subprocess_run ext [''to-cairo-string'', string] of
        Inr stdout \<Rightarrow> Inr (strip stdout)
      | Inl e \<Rightarrow> if e = CalledProcessError then Inl (SystemExit 1) else Inl e)"

text \<open>\<open>starkli_pedersen\<close>, lines 25-41: \<open>CalledProcessError\<close> is caught and answered by
  the first 31 bytes of the SHA-256 digest of the two arguments written one after the
  other. No other exception is caught.\<close>

definition pedersen_expr :: "string \<Rightarrow> string \<Rightarrow> string" where
  "pedersen_expr a b = ''pedersen('' @ a @ '', '' @ b @ '')''"

definition fallback :: "externals \<Rightarrow> string \<Rightarrow> string \<Rightarrow> string" where
  "fallback ext a b =
     (let combined = encode (a @ b);
          h = sha256 ext combined;
          felt = from_bytes_big (take 31 h)
      in hex felt)"

definition starkli_pedersen :: "externals \<Rightarrow> string \<Rightarrow> string \<Rightarrow> error + string" where
  "starkli_pedersen ext a b =
     (case subprocess_run ext [''parse'', pedersen_expr a b] of
        Inr stdout \<Rightarrow> Inr (strip stdout)
      | Inl e \<Rightarrow> if e = CalledProcessError then Inr (fallback ext a b) else Inl e)"

section \<open>The user configuration\<close>

record config =
  USERNAME :: string
  ANSWERS :: "string list"
  SONG_DURATION :: int
  MASTER_KEY :: string

text \<open>The values of lines 47-56.\<close>

definition user_config :: config where
  "user_config =
     \<lparr>USERNAME = ''alice'',
      ANSWERS = [''Denis Guedj'', ''2012'', ''Finney''],
      SONG_DURATION = 218,
      MASTER_KEY = ''0x1234567890abcdef''\<rparr>"

section \<open>Computing the hashes\<close>

text \<open>\<open>x.lower().strip()\<close>, applied to the user name (line 69) and to every answer
  (line 80) before it is converted.\<close>

definition normalize_str :: "string \<Rightarrow> string" where
  "normalize_str x = strip (lower x)"

text \<open>The body of the loop of lines 78-90 for the answer at index \<open>i\<close>: the pair of
  \<open>answer_felt\<close> and \<open>answer_hash\<close>.\<close>

definition answer_hash :: "externals \<Rightarrow> nat \<Rightarrow> string \<Rightarrow> error + string \<times> string" where
  "answer_hash ext i answer =
     (case starkli_to_felt ext (normalize_str answer) of
        Inl e \<Rightarrow> Inl e
      | Inr answer_felt \<Rightarrow>
          (let salt = str (int i)
           in case starkli_pedersen ext answer_felt salt of
                Inl e \<Rightarrow> Inl e
              | Inr h \<Rightarrow> Inr (answer_felt, h)))"

text \<open>The loop itself: the lists \<open>answer_felts\<close> and \<open>answer_hashes\<close>.\<close>

fun answer_loop :: "externals \<Rightarrow> nat \<Rightarrow> string list \<Rightarrow> error + string list \<times> string list" where
  "answer_loop ext i [] = Inr ([], [])"
| "answer_loop ext i (answer # rest) =
     (case answer_hash ext i answer of
        Inl e \<Rightarrow> Inl e
      | Inr (answer_felt, h) \<Rightarrow>
          (case answer_loop ext (Suc i) rest of
             Inl e \<Rightarrow> Inl e
           | Inr (answer_felts, answer_hashes) \<Rightarrow> Inr (answer_felt # answer_felts, h # answer_hashes)))"

text \<open>Lines 95-96, \<open>combined = pedersen(pedersen(h1, h2), h3)\<close>.\<close>

definition combined :: "externals \<Rightarrow> string \<Rightarrow> string \<Rightarrow> string \<Rightarrow> error + string" where
  "combined ext h1 h2 h3 =
     (case starkli_pedersen ext h1 h2 of
        Inl e \<Rightarrow> Inl e
      | Inr temp \<Rightarrow> starkli_pedersen ext temp h3)"

text \<open>Line 101, \<open>master_key_int ^ combined_int\<close>.\<close>

definition encrypt :: "int \<Rightarrow> int \<Rightarrow> int" where
  "encrypt master_key_int combined_int = master_key_int XOR combined_int"

record hashes =
  username_hash :: string
  answer_felts :: "string list"
  answer_hashes :: "string list"
  combined_hash :: string
  encrypted_key :: string

text \<open>
  Lines 57-101. Nothing is written to a file here. \<open>int(MASTER_KEY, 16)\<close> and
  \<open>int(combined_hash, 16)\<close> raise \<open>ValueError\<close> on text that is no hexadecimal number, and
  \<open>answer_hashes[0]\<close>, \<open>[1]\<close>, \<open>[2]\<close> raise \<open>IndexError\<close> when there are fewer than three
  answers; with two answers this happens at line 96, after the call of line 95. Every exception of a call of \<open>starkli\<close> that the two functions above do not
  catch ends the script where it is raised.
\<close>

definition compute_hashes :: "externals \<Rightarrow> config \<Rightarrow> error + hashes" where
  "compute_hashes ext cfg =
     (case int16 (MASTER_KEY cfg) of
        None \<Rightarrow> Inl ValueError
      | Some master_key_int \<Rightarrow>
     (case starkli_to_felt ext (normalize_str (USERNAME cfg)) of
        Inl e \<Rightarrow> Inl e
      | Inr uh \<Rightarrow>
     (case answer_loop ext 0 (ANSWERS cfg) of
        Inl e \<Rightarrow> Inl e
      | Inr (felts, hs) \<Rightarrow>
          if length hs < 2 then Inl IndexError
          else if length hs < 3 then
            (case starkli_pedersen ext (hs ! 0) (hs ! 1) of
               Inl e \<Rightarrow> Inl e
             | Inr temp \<Rightarrow> Inl IndexError)
          else
            (case combined ext (hs ! 0) (hs ! 1) (hs ! 2) of
               Inl e \<Rightarrow> Inl e
             | Inr ch \<Rightarrow>
                 (case int16 ch of
                    None \<Rightarrow> Inl ValueError
                  | Some combined_int \<Rightarrow>
                      Inr \<lparr>username_hash = uh,
                           answer_felts = felts,
                           answer_hashes = hs,
                           combined_hash = ch,
                           encrypted_key = hex (encrypt master_key_int combined_int)\<rparr>)))))"


section \<open>The texts the script produces\<close>

text \<open>The characters of the messages that a string literal cannot hold are named.\<close>

definition nl :: string where
  "nl = [CHR 0x0A]"

definition quote :: string where
  "quote = [CHR 0x27]"

definition dquote :: string where
  "dquote = [CHR 0x22]"

definition backslash :: string where
  "backslash = [CHR 0x5C]"

text \<open>\<open>deploy_cmd\<close>, lines 123-130, printed on the console.\<close>

definition deploy_cmd :: "config \<Rightarrow> hashes \<Rightarrow> string" where
  "deploy_cmd cfg v =
     ''starkli deploy <CLASS_HASH> '' @ backslash @ nl @
     ''  '' @ username_hash v @ '' '' @ backslash @ nl @
     ''  '' @ answer_hashes v ! 0 @ '' '' @ backslash @ nl @
     ''  '' @ answer_hashes v ! 1 @ '' '' @ backslash @ nl @
     ''  '' @ answer_hashes v ! 2 @ '' '' @ backslash @ nl @
     ''  '' @ encrypted_key v @ '' '' @ backslash @ nl @
     ''  u64:'' @ str (SONG_DURATION cfg) @ '' '' @ backslash @ nl @
     ''  --network sepolia''"

text \<open>\<open>env_content\<close>, lines 142-159, the text written to \<open>frontend/config.js\<close>. It is
  built once \<open>answer_hashes[2]\<close> has been read, so \<open>ANSWERS\<close> has three entries.\<close>

definition env_content :: "config \<Rightarrow> string \<Rightarrow> string" where
  "env_content cfg uh =
     ''// Configuration file for frontend'' @ nl @
     ''// Copy this to frontend/config.js'' @ nl @
     nl @
     ''const CONFIG = {'' @ nl @
     ''  CONTRACT_ADDRESS: '' @ quote @ ''0x...'' @ quote @ '', // Update after deploy'' @ nl @
     ''  USERNAME: '' @ quote @ USERNAME cfg @ quote @ '','' @ nl @
     ''  USERNAME_HASH: '' @ quote @ uh @ quote @ '','' @ nl @
     ''  SONG_DURATION: '' @ str (SONG_DURATION cfg) @ '','' @ nl @
     ''  EXPECTED_ANSWERS: ['' @ nl @
     ''    '' @ quote @ ANSWERS cfg ! 0 @ quote @ '','' @ nl @
     ''    '' @ quote @ ANSWERS cfg ! 1 @ quote @ '','' @ nl @
     ''    '' @ quote @ ANSWERS cfg ! 2 @ quote @ nl @
     ''  ],'' @ nl @
     ''  // For testing only - remove in production!'' @ nl @
     ''};'' @ nl @
     nl @
     ''export default CONFIG;'' @ nl"

text \<open>\<open>recovery_test\<close>, lines 190-213, the text written to
  \<open>scripts/test_recovery.sh\<close>.\<close>

definition recovery_test :: "hashes \<Rightarrow> string" where
  "recovery_test v =
     ''#!/bin/bash'' @ nl @
     ''# Test recovery locally (dopo deploy)'' @ nl @
     nl @
     ''CONTRACT_ADDRESS='' @ dquote @ ''<YOUR_CONTRACT_ADDRESS>'' @ dquote @ nl @
     nl @
     ''echo '' @ dquote @ ''Getting remaining attempts...'' @ dquote @ nl @
     ''starkli call $CONTRACT_ADDRESS get_remaining_attempts --network sepolia'' @ nl @
     nl @
     ''echo '' @ dquote @ ''Starting recovery session...'' @ dquote @ nl @
     ''starkli invoke $CONTRACT_ADDRESS start_recovery '' @ username_hash v @
       '' --network sepolia'' @ nl @
     nl @
     ''echo '' @ dquote @ ''Waiting for confirmation... (press ENTER when ready)'' @ dquote @ nl @
     ''read'' @ nl @
     nl @
     ''echo '' @ dquote @ ''Attempting recovery...'' @ dquote @ nl @
     ''starkli invoke $CONTRACT_ADDRESS attempt_recovery '' @ backslash @ nl @
     ''  '' @ username_hash v @ '' '' @ backslash @ nl @
     ''  '' @ answer_hashes v ! 0 @ '' '' @ backslash @ nl @
     ''  '' @ answer_hashes v ! 1 @ '' '' @ backslash @ nl @
     ''  '' @ answer_hashes v ! 2 @ '' '' @ backslash @ nl @
     ''  --network sepolia'' @ nl @
     nl @
     ''echo '' @ dquote @ ''Done! Check if key was recovered.'' @ dquote @ nl"

section \<open>The hash verification test\<close>

text \<open>Line 177.\<close>

definition test_answers :: "string list" where
  "test_answers = [''denis'', ''2012'', ''finney'']"

text \<open>
  The loop of lines 179-184, for the stored \<open>answer_hashes\<close>: every round yields the answer
  tried, its \<open>test_hash\<close> and \<open>matches\<close>. The test answers are converted as they are,
  without \<open>lower\<close> and \<open>strip\<close>.
\<close>

fun test_loop :: "externals \<Rightarrow> string list \<Rightarrow> nat \<Rightarrow> string list \<Rightarrow> error + (string \<times> string \<times> bool) list" where
  "test_loop ext hs i [] = Inr []"
| "test_loop ext hs i (ans # rest) =
     (case starkli_to_felt ext ans of
        Inl e \<Rightarrow> Inl e
      | Inr test_felt \<Rightarrow>
          (case starkli_pedersen ext test_felt (str (int i)) of
             Inl e \<Rightarrow> Inl e
           | Inr test_hash \<Rightarrow>
               if length hs \<le> i then Inl IndexError
               else
                 (let matches = (test_hash = hs ! i)
                  in case test_loop ext hs (Suc i) rest of
                       Inl e \<Rightarrow> Inl e
                     | Inr results \<Rightarrow> Inr ((ans, test_hash, matches) # results))))"

section \<open>The script\<close>

text \<open>
  A run of the script leaves the files it has written, in the order of writing, each with
  its path and its content, and either the exception that ended it or, when it reached its
  last line, the hashes it computed, the deploy command it printed and the results of the
  verification test. The console output is modelled only through these values. A path
  that \<open>open(path, 'w')\<close> refuses (lines 164 and 215) raises \<open>FileNotFoundError\<close> or
  another \<open>OSError\<close> and leaves no file.
\<close>

record report =
  computed :: hashes
  deploy :: string
  tests :: "(string \<times> string \<times> bool) list"

record run =
  files :: "(string \<times> string) list"
  outcome :: "error + report"

definition setup_py :: "externals \<Rightarrow> config \<Rightarrow> run" where
  "setup_py ext cfg =
     (case compute_hashes ext cfg of
        Inl e \<Rightarrow> \<lparr>files = [], outcome = Inl e\<rparr>
      | Inr v \<Rightarrow>
          if \<not> writable ext ''frontend/config.js'' then \<lparr>files = [], outcome = Inl OSError\<rparr>
          else
            (let written = [(''frontend/config.js'', env_content cfg (username_hash v))]
             in case test_loop ext (answer_hashes v) 0 test_answers of
                  Inl e \<Rightarrow> \<lparr>files = written, outcome = Inl e\<rparr>
                | Inr results \<Rightarrow>
                    if \<not> writable ext ''scripts/test_recovery.sh''
                    then \<lparr>files = written, outcome = Inl OSError\<rparr>
                    else
                      \<lparr>files = written @ [(''scripts/test_recovery.sh'', recovery_test v)],
                       outcome = Inr \<lparr>computed = v, deploy = deploy_cmd cfg v, tests = results\<rparr>\<rparr>))"


section \<open>Stand-ins for the external programs\<close>

text \<open>
  The examples below run the script against stand-ins for \<open>starkli\<close>. The first
  prints, for either subcommand, \<open>0x\<close> followed by the two hexadecimal digits of every
  character of its last argument, which is what \<open>to-cairo-string\<close> prints for a short
  text. The second does so for \<open>to-cairo-string\<close> only and exits with an error status on
  every other call, so that \<open>starkli_pedersen\<close> always takes its fallback. The third is
  the second, except that it also prints for the pedersen expressions with salt \<open>1\<close>. The
  fourth is a machine on which \<open>starkli\<close> is not installed, and the fifth a \<open>starkli\<close> that
  exits with an error status on every call. The digest of all of them is a stand-in of the
  right length: the first 32 bytes of the message, filled up with zeros; every path can be
  written.
\<close>

definition hex_of_text :: "string \<Rightarrow> string" where
  "hex_of_text s =
     ''0x'' @ concat (map (\<lambda>c. [''0123456789abcdef'' ! (of_char c div 16),
                                ''0123456789abcdef'' ! (of_char c mod 16)]) s)"

definition leading_bytes :: "byte list \<Rightarrow> byte list" where
  "leading_bytes m = take 32 (m @ replicate 32 0)"

definition printing_starkli :: externals where
  "printing_starkli =
     \<lparr>starkli = (\<lambda>args. case args of
                   [cmd, x] \<Rightarrow> Completed (hex_of_text x)
                 | _ \<Rightarrow> Failed),
      sha256 = leading_bytes,
      writable = (\<lambda>path. True)\<rparr>"

definition no_pedersen :: externals where
  "no_pedersen =
     \<lparr>starkli = (\<lambda>args. case args of
                   [cmd, x] \<Rightarrow>
                     if cmd = ''to-cairo-string'' then Completed (hex_of_text x)
                     else Failed
                 | _ \<Rightarrow> Failed),
      sha256 = leading_bytes,
      writable = (\<lambda>path. True)\<rparr>"


definition no_starkli :: externals where
  "no_starkli =
     \<lparr>starkli = (\<lambda>args. NotStarted),
      sha256 = leading_bytes,
      writable = (\<lambda>path. True)\<rparr>"


text \<open>The hashes the script computes from the user configuration against the second
  stand-in.\<close>

definition sample_hashes :: hashes where
  "sample_hashes =
     \<lparr>username_hash = ''0x616c696365'',
      answer_felts = [''0x64656e697320677565646a'', ''0x32303132'', ''0x66696e6e6579''],
      answer_hashes =
        [''0x30783634363536653639373332303637373536353634366130000000000000'',
         ''0x30783332333033313332310000000000000000000000000000000000000000'',
         ''0x30783636363936653665363537393200000000000000000000000000000000''],
      combined_hash = ''0x30783330373833333330333733383333333633333334333333363333333533'',
      encrypted_key = ''0x30783330373833333330333733383333333633333334332107604ba398f8dc''\<rparr>"


section \<open>Normalisation of the answers\<close>

lemma lower_char_idem: "lower_char (lower_char c) = lower_char c"
  by (auto simp add: lower_char_def Let_def)

lemma isspace_lower_char: "isspace (lower_char c) = isspace c"
  by (auto simp add: lower_char_def isspace_def Let_def)

lemma lower_idem: "lower (lower s) = lower s"
  by (simp add: lower_def lower_char_idem)

lemma dropWhile_isspace_lower: "dropWhile isspace (lower s) = lower (dropWhile isspace s)"
  by (induction s) (simp_all add: lower_def isspace_lower_char)

lemma strip_lower: "strip (lower s) = lower (strip s)"
proof -
  have "rev (lower s) = lower (rev s)" for s
    by (simp add: lower_def rev_map)
  then show ?thesis
    by (simp add: strip_def dropWhile_isspace_lower)
qed

lemma hd_rev_dropWhile_rev:
  assumes "dropWhile P (rev t) \<noteq> []"
  shows "hd (rev (dropWhile P (rev t))) = hd t"
proof -
  have "rev (dropWhile P (rev t)) @ rev (takeWhile P (rev t)) =
        rev (takeWhile P (rev t) @ dropWhile P (rev t))"
    by (simp only: rev_append)
  also have "\<dots> = rev (rev t)"
    by (simp only: takeWhile_dropWhile_id)
  finally have "rev (dropWhile P (rev t)) @ rev (takeWhile P (rev t)) = t"
    by simp
  then have "hd t = hd (rev (dropWhile P (rev t)) @ rev (takeWhile P (rev t)))"
    by simp
  with assms show ?thesis
    by simp
qed

lemma dropWhile_trimmed:
  "dropWhile P (rev (dropWhile P (rev (dropWhile P s)))) = rev (dropWhile P (rev (dropWhile P s)))"
proof (cases "dropWhile P (rev (dropWhile P s)) = []")
  case True
  show ?thesis unfolding True by simp
next
  case False
  have ne: "dropWhile P s \<noteq> []"
  proof
    assume "dropWhile P s = []"
    then have "dropWhile P (rev (dropWhile P s)) = []"
      by (simp only: rev.simps dropWhile.simps)
    with False show False ..
  qed
  have "hd (rev (dropWhile P (rev (dropWhile P s)))) = hd (dropWhile P s)"
    using False by (rule hd_rev_dropWhile_rev)
  moreover have "\<not> P (hd (dropWhile P s))"
    using ne by (rule hd_dropWhile)
  ultimately show ?thesis
    by (simp add: dropWhile_eq_self_iff)
qed

lemma strip_idem: "strip (strip s) = strip s"
proof -
  let ?u = "dropWhile isspace (rev (dropWhile isspace s))"
  have "dropWhile isspace ?u = ?u"
    by (simp add: dropWhile_eq_self_iff hd_dropWhile)
  then show ?thesis
    by (simp add: strip_def dropWhile_trimmed)
qed

lemma normalize_str_idem: "normalize_str (normalize_str x) = normalize_str x"
proof -
  have "normalize_str (normalize_str x) = strip (strip (lower (lower x)))"
    by (simp add: normalize_str_def strip_lower)
  then show ?thesis
    by (simp add: normalize_str_def strip_idem lower_idem)
qed

text \<open>
  Claim C8. Normalisation is idempotent: lowering and trimming a text that has been
  lowered and trimmed changes nothing, so the felt conversion of line 80 receives the same
  text whether it is given \<open>x\<close> or the normalised \<open>x\<close>.
\<close>

theorem normalize_idempotent:
  "normalize_str (normalize_str x) = normalize_str x \<and>
   starkli_to_felt ext (normalize_str (normalize_str x)) = starkli_to_felt ext (normalize_str x)"
proof
  show "normalize_str (normalize_str x) = normalize_str x"
    by (rule normalize_str_idem)
  then show "starkli_to_felt ext (normalize_str (normalize_str x)) =
      starkli_to_felt ext (normalize_str x)"
    by (rule arg_cong)
qed

lemma normalize_Finney:
  "normalize_str ''Finney '' = ''finney''" "normalize_str ''FINNEY'' = ''finney''"
  "normalize_str ''Finney'' = ''finney''"
  by (simp_all add: normalize_str_def strip_def lower_def lower_char_def isspace_def char_of_def
      bit_Suc_0_iff)

section \<open>Hexadecimal numbers and bytes\<close>

lemma below_16: "k < 16 \<Longrightarrow> k \<in> {0, 1, 2, 3, 4, 5, 6, 7, 8, 9, 10, 11, 12, 13, 14, 15::nat}"
  by simp arith

lemma digit16_table: "k < 16 \<Longrightarrow> digit16 (''0123456789abcdef'' ! k) = Some k"
proof -
  assume "k < 16"
  then have "k \<in> {0, 1, 2, 3, 4, 5, 6, 7, 8, 9, 10, 11, 12, 13, 14, 15}"
    by (rule below_16)
  then show ?thesis
    by (elim insertE emptyE) (simp_all add: digit16_def)
qed

lemma table_not_underscore: "k < 16 \<Longrightarrow> ''0123456789abcdef'' ! k \<noteq> CHR ''_''"
proof -
  assume "k < 16"
  then have "k \<in> {0, 1, 2, 3, 4, 5, 6, 7, 8, 9, 10, 11, 12, 13, 14, 15}"
    by (rule below_16)
  then show ?thesis
    by (elim insertE emptyE) simp_all
qed

lemma digits16_hex_digits: "digits16 p acc (hex_digits m @ rest) = digits16 False (acc * 16 ^ length (hex_digits m) + m) rest"
proof (induction m arbitrary: rest rule: hex_digits.induct)
  case (1 n)
  show ?case
  proof (cases "n < 16")
    case True
    then show ?thesis
      by (simp add: hex_digits.simps [of n] digit16_table table_not_underscore mult.commute)
  next
    case False
    have "n mod 16 < 16" by simp
    then have d: "digit16 (''0123456789abcdef'' ! (n mod 16)) = Some (n mod 16)"
      "''0123456789abcdef'' ! (n mod 16) \<noteq> CHR ''_''"
      by (rule digit16_table, rule table_not_underscore)
    have "digits16 p acc (hex_digits n @ rest) =
          digits16 p acc (hex_digits (n div 16) @ (''0123456789abcdef'' ! (n mod 16)) # rest)"
      using False by (simp add: hex_digits.simps [of n])
    also have "\<dots> = digits16 False (acc * 16 ^ length (hex_digits (n div 16)) + n div 16)
          ((''0123456789abcdef'' ! (n mod 16)) # rest)"
      using False by (rule "1.IH")
    also have "\<dots> = digits16 False (acc * 16 ^ length (hex_digits n) + n) rest"
      using False d by (simp add: hex_digits.simps [of n] algebra_simps)
    finally show ?thesis .
  qed
qed


lemma hex_digits_not_Nil: "hex_digits m \<noteq> []"
  by (subst hex_digits.simps) simp

lemma hd_hex_digits_table: "\<exists>k<16. hd (hex_digits m) = ''0123456789abcdef'' ! k"
proof (induction m rule: hex_digits.induct)
  case (1 n)
  show ?case
  proof (cases "n < 16")
    case True
    then show ?thesis
      by (subst hex_digits.simps) auto
  next
    case False
    then have "hd (hex_digits n) = hd (hex_digits (n div 16))"
      by (subst hex_digits.simps) (simp add: hex_digits_not_Nil)
    with False "1.IH" show ?thesis
      by simp
  qed
qed

lemma last_hex_digits_table: "\<exists>k<16. last (hex_digits m) = ''0123456789abcdef'' ! k"
proof -
  have "last (hex_digits m) = ''0123456789abcdef'' ! (m mod 16)"
    by (subst hex_digits.simps) simp
  moreover have "m mod 16 < 16"
    by simp
  ultimately show ?thesis
    by blast
qed

lemma table_not_int_space: "k < 16 \<Longrightarrow> \<not> int_space (''0123456789abcdef'' ! k)"
proof -
  assume "k < 16"
  then have "k \<in> {0, 1, 2, 3, 4, 5, 6, 7, 8, 9, 10, 11, 12, 13, 14, 15}"
    by (rule below_16)
  then show ?thesis
    by (elim insertE emptyE) (simp_all add: int_space_def)
qed

lemma int16_prefixed:
  assumes ne: "ds \<noteq> []"
    and last_ok: "\<not> int_space (last ds)"
    and us: "hd ds \<noteq> CHR ''_''"
    and dg: "digits16 True 0 ds = Some m"
  shows "int16 (''0x'' @ ds) = Some (int m)" and "int16 (''-0x'' @ ds) = Some (- int m)"
proof -
  have tk: "take 1 ds \<noteq> ''_''"
    using ne us by (cases ds) auto
  have "dropWhile int_space (''0x'' @ ds) = ''0x'' @ ds"
    by (simp add: int_space_def)
  moreover have "dropWhile int_space (rev (''0x'' @ ds)) = rev (''0x'' @ ds)"
    using last_ok ne by (simp add: dropWhile_eq_self_iff hd_append hd_rev)
  ultimately have "rev (dropWhile int_space (rev (dropWhile int_space (''0x'' @ ds)))) = ''0x'' @ ds"
    by (simp only: rev_rev_ident)
  then show "int16 (''0x'' @ ds) = Some (int m)"
    unfolding int16_def using tk dg by (simp add: Let_def)
  have "dropWhile int_space (''-0x'' @ ds) = ''-0x'' @ ds"
    by (simp add: int_space_def)
  moreover have "dropWhile int_space (rev (''-0x'' @ ds)) = rev (''-0x'' @ ds)"
    using last_ok ne by (simp add: dropWhile_eq_self_iff hd_append hd_rev)
  ultimately have "rev (dropWhile int_space (rev (dropWhile int_space (''-0x'' @ ds)))) = ''-0x'' @ ds"
    by (simp only: rev_rev_ident)
  then show "int16 (''-0x'' @ ds) = Some (- int m)"
    unfolding int16_def using tk dg by (simp add: Let_def)
qed

lemma int16_hex: "int16 (hex n) = Some n"
proof -
  let ?ds = "hex_digits (nat \<bar>n\<bar>)"
  obtain k where k: "k < 16" "hd ?ds = ''0123456789abcdef'' ! k"
    using hd_hex_digits_table by blast
  obtain j where j: "j < 16" "last ?ds = ''0123456789abcdef'' ! j"
    using last_hex_digits_table by blast
  have ne: "?ds \<noteq> []"
    by (rule hex_digits_not_Nil)
  have last_ok: "\<not> int_space (last ?ds)"
    using j by (simp add: table_not_int_space)
  have us: "hd ?ds \<noteq> CHR ''_''"
    using k by (simp add: table_not_underscore)
  have dg: "digits16 True 0 ?ds = Some (nat \<bar>n\<bar>)"
    using digits16_hex_digits [of True 0 "nat \<bar>n\<bar>" "[]"] by simp
  show ?thesis
  proof (cases "n < 0")
    case True
    have "int16 (''-0x'' @ ?ds) = Some (- int (nat \<bar>n\<bar>))"
      using ne last_ok us dg by (rule int16_prefixed)
    moreover have "hex n = ''-0x'' @ ?ds"
      using True by (simp add: hex_def)
    ultimately show ?thesis
      using True by simp
  next
    case False
    have "int16 (''0x'' @ ?ds) = Some (int (nat \<bar>n\<bar>))"
      using ne last_ok us dg by (rule int16_prefixed)
    moreover have "hex n = ''0x'' @ ?ds"
      using False by (simp add: hex_def)
    ultimately show ?thesis
      using False by simp
  qed
qed

lemma from_bytes_big_bounds:
  "0 \<le> acc \<Longrightarrow> 0 \<le> foldl (\<lambda>acc b. 256 * acc + uint (b::byte)) acc bs \<and>
     foldl (\<lambda>acc b. 256 * acc + uint b) acc bs < (acc + 1) * 256 ^ length bs"
proof (induction bs arbitrary: acc)
  case Nil
  then show ?case by simp
next
  case (Cons b bs)
  have ub: "uint b < 256" "0 \<le> uint b"
    using uint_bounded [of b] by simp_all
  with Cons.prems have "0 \<le> 256 * acc + uint b"
    by simp
  then have IH: "0 \<le> foldl (\<lambda>acc b. 256 * acc + uint b) (256 * acc + uint b) bs"
    "foldl (\<lambda>acc b. 256 * acc + uint b) (256 * acc + uint b) bs < (256 * acc + uint b + 1) * 256 ^ length bs"
    using Cons.IH by blast+
  note IH(2)
  also have "(256 * acc + uint b + 1) * 256 ^ length bs \<le> (256 * acc + 256) * 256 ^ length bs"
    using ub by (intro mult_right_mono) simp_all
  also have "\<dots> = (acc + 1) * 256 ^ length (b # bs)"
    by (simp add: algebra_simps)
  finally show ?case
    using IH(1) by simp
qed

lemma from_bytes_big_take_31:
  "0 \<le> from_bytes_big (take 31 h) \<and> from_bytes_big (take 31 h) < 2 ^ 248"
proof -
  have "from_bytes_big (take 31 h) < 256 ^ length (take 31 h)"
    using from_bytes_big_bounds [of 0 "take 31 h"] by (simp add: from_bytes_big_def)
  also have "(256::int) ^ length (take 31 h) \<le> 256 ^ 31"
    by (intro power_increasing) simp_all
  also have "(256::int) ^ 31 = 2 ^ 248"
    by simp
  finally show ?thesis
    using from_bytes_big_bounds [of 0 "take 31 h"] by (simp add: from_bytes_big_def)
qed

section \<open>Calls of starkli\<close>

lemma pedersen_expr_nul:
  "CHR 0x00 \<in> set (pedersen_expr a b) \<longleftrightarrow> CHR 0x00 \<in> set a \<or> CHR 0x00 \<in> set b"
  by (auto simp add: pedersen_expr_def)

section \<open>A run against the stand-in without pedersen\<close>

lemma replicate_numeral: "replicate (numeral k) x = x # replicate (pred_numeral k) x"
  by (simp add: numeral_eq_Suc)

lemma no_pedersen_to_felt:
  "CHR 0x00 \<notin> set s \<Longrightarrow> starkli_to_felt no_pedersen s = Inr (strip (hex_of_text s))"
  by (simp add: starkli_to_felt_def subprocess_run_def no_pedersen_def)

lemma no_pedersen_pedersen:
  "CHR 0x00 \<notin> set a \<Longrightarrow> CHR 0x00 \<notin> set b \<Longrightarrow>
     starkli_pedersen no_pedersen a b =
       Inr (hex (from_bytes_big (take 31 (leading_bytes (encode (a @ b))))))"
  by (simp add: starkli_pedersen_def subprocess_run_def no_pedersen_def fallback_def
      pedersen_expr_def)

lemma sample_felts:
  "strip (hex_of_text ''alice'') = ''0x616c696365''"
  "strip (hex_of_text ''denis guedj'') = ''0x64656e697320677565646a''"
  "strip (hex_of_text ''2012'') = ''0x32303132''"
  "strip (hex_of_text ''finney'') = ''0x66696e6e6579''"
  "strip (hex_of_text ''denis'') = ''0x64656e6973''"
  by (simp_all add: hex_of_text_def strip_def isspace_def)

lemma sample_normalize:
  "normalize_str ''alice'' = ''alice''"
  "normalize_str ''Denis Guedj'' = ''denis guedj''"
  "normalize_str ''2012'' = ''2012''"
  by (simp_all add: normalize_str_def strip_def lower_def lower_char_def isspace_def char_of_def
      bit_Suc_0_iff)

lemma str_slots: "str 0 = ''0''" "str 1 = ''1''" "str 2 = ''2''"
  by (simp_all add: str_def dec_digits.simps)

lemmas fallback_simps = no_pedersen_pedersen encode_def encode_char_def leading_bytes_def
  from_bytes_big_def replicate_numeral hex_def hex_digits.simps

lemma sample_answer_hashes:
  "starkli_pedersen no_pedersen ''0x64656e697320677565646a'' ''0'' =
     Inr ''0x30783634363536653639373332303637373536353634366130000000000000''"
  "starkli_pedersen no_pedersen ''0x32303132'' ''1'' =
     Inr ''0x30783332333033313332310000000000000000000000000000000000000000''"
  "starkli_pedersen no_pedersen ''0x66696e6e6579'' ''2'' =
     Inr ''0x30783636363936653665363537393200000000000000000000000000000000''"
  "starkli_pedersen no_pedersen ''0x64656e6973'' ''0'' =
     Inr ''0x30783634363536653639373330000000000000000000000000000000000000''"
  by (simp_all add: fallback_simps)

lemma sample_combined:
  "combined no_pedersen
     ''0x30783634363536653639373332303637373536353634366130000000000000''
     ''0x30783332333033313332310000000000000000000000000000000000000000''
     ''0x30783636363936653665363537393200000000000000000000000000000000'' =
   Inr ''0x30783330373833333330333733383333333633333334333333363333333533''"
proof -
  have "starkli_pedersen no_pedersen
     ''0x30783634363536653639373332303637373536353634366130000000000000''
     ''0x30783332333033313332310000000000000000000000000000000000000000'' =
     Inr ''0x30783330373833363334333633353336363533363339333733333332333033''"
    by (simp add: fallback_simps)
  moreover have "starkli_pedersen no_pedersen
     ''0x30783330373833363334333633353336363533363339333733333332333033''
     ''0x30783636363936653665363537393200000000000000000000000000000000'' =
     Inr ''0x30783330373833333330333733383333333633333334333333363333333533''"
    by (simp add: fallback_simps)
  ultimately show ?thesis
    by (simp add: combined_def)
qed

lemma sample_ints:
  "int16 ''0x1234567890abcdef'' = Some 0x1234567890abcdef"
  "int16 ''0x30783330373833333330333733383333333633333334333333363333333533'' =
     Some 0x30783330373833333330333733383333333633333334333333363333333533"
  by (simp_all add: int16_def int_space_def digit16_def)

lemma sample_encrypted:
  "hex (encrypt 0x1234567890abcdef 0x30783330373833333330333733383333333633333334333333363333333533) =
     ''0x30783330373833333330333733383333333633333334332107604ba398f8dc''"
  by (simp add: encrypt_def hex_def hex_digits.simps)

lemma sample_answer_loop:
  "answer_loop no_pedersen 0 [''Denis Guedj'', ''2012'', ''Finney''] =
     Inr (answer_felts sample_hashes, answer_hashes sample_hashes)"
  by (simp add: answer_hash_def no_pedersen_to_felt sample_normalize normalize_Finney
      sample_felts str_slots sample_answer_hashes sample_hashes_def)

lemma compute_hashes_sample: "compute_hashes no_pedersen user_config = Inr sample_hashes"
proof -
  have "answer_loop no_pedersen 0 (ANSWERS user_config) =
     Inr (answer_felts sample_hashes, answer_hashes sample_hashes)"
    using sample_answer_loop by (simp add: user_config_def)
  moreover have "starkli_to_felt no_pedersen (normalize_str (USERNAME user_config)) = Inr ''0x616c696365''"
    by (simp add: user_config_def no_pedersen_to_felt sample_normalize sample_felts)
  moreover have "MASTER_KEY user_config = ''0x1234567890abcdef''"
    by (simp add: user_config_def)
  ultimately show ?thesis
    unfolding compute_hashes_def
    by (simp add: sample_ints sample_hashes_def sample_combined sample_encrypted)
qed

section \<open>The combined hash and the encrypted key\<close>

lemma answer_loop_nth:
  "answer_loop ext k as = Inr (fs, hs) \<Longrightarrow>
     length fs = length as \<and> length hs = length as \<and>
     (\<forall>i<length as. answer_hash ext (k + i) (as ! i) = Inr (fs ! i, hs ! i))"
proof (induction as arbitrary: k fs hs)
  case Nil
  then show ?case by simp
next
  case (Cons a as)
  from Cons.prems obtain f h fs' hs' where
    a: "answer_hash ext k a = Inr (f, h)" and
    rest: "answer_loop ext (Suc k) as = Inr (fs', hs')" and
    eq: "fs = f # fs'" "hs = h # hs'"
    by (auto split: sum.splits prod.splits)
  from Cons.IH [OF rest] have IH: "length fs' = length as" "length hs' = length as"
    "\<And>i. i < length as \<Longrightarrow> answer_hash ext (Suc k + i) (as ! i) = Inr (fs' ! i, hs' ! i)"
    by simp_all
  show ?case
  proof (intro conjI allI impI)
    fix i assume "i < length (a # as)"
    then show "answer_hash ext (k + i) ((a # as) ! i) = Inr (fs ! i, hs ! i)"
      using a IH(3) eq by (cases i) simp_all
  qed (simp_all add: eq IH)
qed

lemma answer_hash_Inr:
  "answer_hash ext i a = Inr (f, h) \<Longrightarrow>
     starkli_to_felt ext (normalize_str a) = Inr f \<and> starkli_pedersen ext f (str (int i)) = Inr h"
  by (auto simp add: answer_hash_def Let_def split: sum.splits)

lemma combined_Inr:
  "combined ext a b c = Inr h \<longleftrightarrow>
     (\<exists>t. starkli_pedersen ext a b = Inr t \<and> starkli_pedersen ext t c = Inr h)"
  by (simp add: combined_def split: sum.splits)

lemma compute_hashes_Inr:
  assumes "compute_hashes ext cfg = Inr v"
  shows "\<exists>key mask.
     int16 (MASTER_KEY cfg) = Some key \<and>
     starkli_to_felt ext (normalize_str (USERNAME cfg)) = Inr (username_hash v) \<and>
     answer_loop ext 0 (ANSWERS cfg) = Inr (answer_felts v, answer_hashes v) \<and>
     3 \<le> length (answer_hashes v) \<and>
     combined ext (answer_hashes v ! 0) (answer_hashes v ! 1) (answer_hashes v ! 2) =
       Inr (combined_hash v) \<and>
     int16 (combined_hash v) = Some mask \<and>
     encrypted_key v = hex (encrypt key mask)"
  using assms unfolding compute_hashes_def
  by (auto simp add: Let_def split: option.splits sum.splits prod.splits if_splits)

text \<open>
  Claim C3. The combined secret is the left-associative pairwise fold of the three answer
  commitments, \<open>hash(hash(c0, c1), c2)\<close>, and the hash is \<open>starkli_pedersen\<close>, the
  same function that computes every answer commitment from its felt and its slot index.
  This holds for the function of lines 95-96, which returns a value exactly when the inner
  and then the outer call return one and raises what the first failing call raises, and
  for the values of every run of the script that gets as far as computing them.
\<close>

theorem combined_hash_is_left_fold:
  "combined ext c0 c1 c2 =
     (case starkli_pedersen ext c0 c1 of Inl e \<Rightarrow> Inl e | Inr t \<Rightarrow> starkli_pedersen ext t c2) \<and>
   (combined ext c0 c1 c2 = Inr h \<longleftrightarrow>
      (\<exists>t. starkli_pedersen ext c0 c1 = Inr t \<and> starkli_pedersen ext t c2 = Inr h)) \<and>
   (compute_hashes ext cfg = Inr v \<longrightarrow>
      (\<exists>t. starkli_pedersen ext (answer_hashes v ! 0) (answer_hashes v ! 1) = Inr t \<and>
           starkli_pedersen ext t (answer_hashes v ! 2) = Inr (combined_hash v)) \<and>
      (\<forall>i<length (ANSWERS cfg).
         starkli_pedersen ext (answer_felts v ! i) (str (int i)) = Inr (answer_hashes v ! i)))"
proof (intro conjI impI)
  show "combined ext c0 c1 c2 =
     (case starkli_pedersen ext c0 c1 of Inl e \<Rightarrow> Inl e | Inr t \<Rightarrow> starkli_pedersen ext t c2)"
    by (simp add: combined_def)
  show "combined ext c0 c1 c2 = Inr h \<longleftrightarrow>
      (\<exists>t. starkli_pedersen ext c0 c1 = Inr t \<and> starkli_pedersen ext t c2 = Inr h)"
    by (rule combined_Inr)
  assume run: "compute_hashes ext cfg = Inr v"
  from compute_hashes_Inr [OF run]
  have "combined ext (answer_hashes v ! 0) (answer_hashes v ! 1) (answer_hashes v ! 2) =
      Inr (combined_hash v)"
    by blast
  then show "\<exists>t. starkli_pedersen ext (answer_hashes v ! 0) (answer_hashes v ! 1) = Inr t \<and>
           starkli_pedersen ext t (answer_hashes v ! 2) = Inr (combined_hash v)"
    by (simp only: combined_Inr)
  from compute_hashes_Inr [OF run]
  have "answer_loop ext 0 (ANSWERS cfg) = Inr (answer_felts v, answer_hashes v)"
    by blast
  from answer_loop_nth [OF this]
  show "\<forall>i<length (ANSWERS cfg).
         starkli_pedersen ext (answer_felts v ! i) (str (int i)) = Inr (answer_hashes v ! i)"
    using answer_hash_Inr by fastforce
qed

theorem combined_hash_is_left_fold_witness:
  "compute_hashes no_pedersen user_config = Inr sample_hashes \<and>
   starkli_pedersen no_pedersen (answer_hashes sample_hashes ! 0) (answer_hashes sample_hashes ! 1) =
     Inr ''0x30783330373833363334333633353336363533363339333733333332333033'' \<and>
   starkli_pedersen no_pedersen ''0x30783330373833363334333633353336363533363339333733333332333033''
     (answer_hashes sample_hashes ! 2) = Inr (combined_hash sample_hashes) \<and>
   starkli_pedersen no_pedersen (answer_felts sample_hashes ! 2) ''2'' =
     Inr (answer_hashes sample_hashes ! 2)"
proof -
  from combined_hash_is_left_fold [where ext = no_pedersen and cfg = user_config
      and v = sample_hashes] compute_hashes_sample
  have fold: "\<exists>t. starkli_pedersen no_pedersen (answer_hashes sample_hashes ! 0)
           (answer_hashes sample_hashes ! 1) = Inr t \<and>
         starkli_pedersen no_pedersen t (answer_hashes sample_hashes ! 2) =
           Inr (combined_hash sample_hashes)"
    and slots: "\<forall>i<length (ANSWERS user_config).
         starkli_pedersen no_pedersen (answer_felts sample_hashes ! i) (str (int i)) =
           Inr (answer_hashes sample_hashes ! i)"
    by blast+
  have inner: "starkli_pedersen no_pedersen (answer_hashes sample_hashes ! 0)
      (answer_hashes sample_hashes ! 1) =
     Inr ''0x30783330373833363334333633353336363533363339333733333332333033''"
    by (simp add: sample_hashes_def fallback_simps)
  with fold have outer: "starkli_pedersen no_pedersen
      ''0x30783330373833363334333633353336363533363339333733333332333033''
      (answer_hashes sample_hashes ! 2) = Inr (combined_hash sample_hashes)"
    by auto
  from slots have "2 < length (ANSWERS user_config) \<longrightarrow>
      starkli_pedersen no_pedersen (answer_felts sample_hashes ! 2) (str (int 2)) =
        Inr (answer_hashes sample_hashes ! 2)"
    by (rule spec)
  then have "starkli_pedersen no_pedersen (answer_felts sample_hashes ! 2) ''2'' =
     Inr (answer_hashes sample_hashes ! 2)"
    by (simp add: user_config_def str_slots)
  with compute_hashes_sample inner outer show ?thesis
    by (intro conjI)
qed

text \<open>
  Claim C6. Encryption is the bitwise XOR of the master key with the combined secret
  (line 101). Decryption is the identical operation, so applying \<open>encrypt\<close> with the
  same mask a second time gives the key back, for all keys and masks; in every run of the
  script the printed \<open>encrypted_key\<close>, read as a hexadecimal number and XORed with the
  combined hash, is the master key.
\<close>

theorem xor_encryption_self_inverse:
  "encrypt (encrypt k m) m = k \<and>
   (compute_hashes ext cfg = Inr v \<longrightarrow>
      (\<exists>key mask.
         int16 (MASTER_KEY cfg) = Some key \<and>
         int16 (combined_hash v) = Some mask \<and>
         int16 (encrypted_key v) = Some (encrypt key mask) \<and>
         encrypt (encrypt key mask) mask = key))"
proof (intro conjI impI)
  show inv: "encrypt (encrypt k m) m = k" for k m
    by (simp add: encrypt_def xor.assoc)
  assume run: "compute_hashes ext cfg = Inr v"
  from compute_hashes_Inr [OF run] obtain key mask where
    "int16 (MASTER_KEY cfg) = Some key" "int16 (combined_hash v) = Some mask"
    "encrypted_key v = hex (encrypt key mask)"
    by blast
  then show "\<exists>key mask.
         int16 (MASTER_KEY cfg) = Some key \<and>
         int16 (combined_hash v) = Some mask \<and>
         int16 (encrypted_key v) = Some (encrypt key mask) \<and>
         encrypt (encrypt key mask) mask = key"
    using inv by (auto simp add: int16_hex)
qed

theorem xor_encryption_self_inverse_witness:
  "compute_hashes no_pedersen user_config = Inr sample_hashes \<and>
   int16 (MASTER_KEY user_config) = Some 0x1234567890abcdef \<and>
   int16 (combined_hash sample_hashes) =
     Some 0x30783330373833333330333733383333333633333334333333363333333533 \<and>
   int16 (encrypted_key sample_hashes) =
     Some (encrypt 0x1234567890abcdef 0x30783330373833333330333733383333333633333334333333363333333533) \<and>
   encrypt (encrypt 0x1234567890abcdef 0x30783330373833333330333733383333333633333334333333363333333533)
     0x30783330373833333330333733383333333633333334333333363333333533 = 0x1234567890abcdef"
  using xor_encryption_self_inverse [where ext = no_pedersen and cfg = user_config
      and v = sample_hashes]
    compute_hashes_sample
  by (auto simp add: user_config_def sample_hashes_def sample_ints)

section \<open>Slot indices, hash queries and the encoding are injective\<close>

lemma digit_value_table: "k < 10 \<Longrightarrow> (of_char (''0123456789'' ! k) :: nat) - 48 = k"
proof -
  assume "k < 10"
  then have "k < 16" by simp
  then have "k \<in> {0, 1, 2, 3, 4, 5, 6, 7, 8, 9, 10, 11, 12, 13, 14, 15}"
    by (rule below_16)
  with \<open>k < 10\<close> show ?thesis
    by (elim insertE emptyE) simp_all
qed

lemma digit_not_minus: "k < 10 \<Longrightarrow> ''0123456789'' ! k \<noteq> CHR ''-''"
proof -
  assume "k < 10"
  then have "k < 16" by simp
  then have "k \<in> {0, 1, 2, 3, 4, 5, 6, 7, 8, 9, 10, 11, 12, 13, 14, 15}"
    by (rule below_16)
  with \<open>k < 10\<close> show ?thesis
    by (elim insertE emptyE) simp_all
qed

lemma dec_digits_value:
  "foldl (\<lambda>a c. 10 * a + ((of_char c :: nat) - 48)) acc (dec_digits n) =
     acc * 10 ^ length (dec_digits n) + n"
proof (induction n arbitrary: acc rule: dec_digits.induct)
  case (1 n)
  show ?case
  proof (cases "n < 10")
    case True
    then show ?thesis
      by (simp add: dec_digits.simps [of n] digit_value_table)
  next
    case False
    have "n mod 10 < 10" by simp
    then have d: "(of_char (''0123456789'' ! (n mod 10)) :: nat) - 48 = n mod 10"
      by (rule digit_value_table)
    show ?thesis
      using False "1.IH" [OF False] d
      by (simp add: dec_digits.simps [of n] algebra_simps)
  qed
qed

lemma dec_digits_inj: "dec_digits n = dec_digits m \<Longrightarrow> n = m"
proof -
  assume eq: "dec_digits n = dec_digits m"
  have "n = foldl (\<lambda>a c. 10 * a + ((of_char c :: nat) - 48)) 0 (dec_digits n)"
    by (simp add: dec_digits_value)
  also have "\<dots> = foldl (\<lambda>a c. 10 * a + ((of_char c :: nat) - 48)) 0 (dec_digits m)"
    by (simp only: eq)
  also have "\<dots> = m"
    by (simp add: dec_digits_value)
  finally show ?thesis .
qed

lemma dec_digits_not_Nil: "dec_digits n \<noteq> []"
  by (subst dec_digits.simps) simp

lemma hd_dec_digits: "hd (dec_digits n) \<noteq> CHR ''-''"
proof (induction n rule: dec_digits.induct)
  case (1 n)
  show ?case
  proof (cases "n < 10")
    case True
    then show ?thesis
      by (subst dec_digits.simps) (simp add: digit_not_minus)
  next
    case False
    then have "hd (dec_digits n) = hd (dec_digits (n div 10))"
      by (subst dec_digits.simps) (simp add: dec_digits_not_Nil)
    with False "1.IH" show ?thesis
      by simp
  qed
qed

lemma str_inj: "str n = str m \<Longrightarrow> n = m"
proof -
  assume eq: "str n = str m"
  have sign: "n < 0 \<longleftrightarrow> m < 0"
  proof -
    have "hd (str k) = CHR ''-'' \<longleftrightarrow> k < 0" for k
      by (simp add: str_def hd_dec_digits)
    with eq show ?thesis
      by metis
  qed
  from eq sign have "dec_digits (nat \<bar>n\<bar>) = dec_digits (nat \<bar>m\<bar>)"
    by (simp add: str_def split: if_splits)
  then have "nat \<bar>n\<bar> = nat \<bar>m\<bar>"
    by (rule dec_digits_inj)
  with sign show ?thesis
    by linarith
qed

lemma pedersen_expr_inj_right: "pedersen_expr a b = pedersen_expr a b' \<Longrightarrow> b = b'"
  by (simp add: pedersen_expr_def)

lemma of_char_div_64: "(of_char c :: nat) div 64 < 4"
  by (rule less_mult_imp_div_less) simp

lemma unat_byte: "k < 256 \<Longrightarrow> unat (of_nat k :: byte) = k"
  by (simp add: unat_of_nat)

lemma unat_encode_char:
  "map unat (encode_char c) =
     (if (of_char c :: nat) < 128 then [of_char c]
      else [192 + of_char c div 64, 128 + of_char c mod 64])"
proof (cases "(of_char c :: nat) < 128")
  case True
  then show ?thesis
    by (simp add: encode_char_def unat_of_nat)
next
  case False
  have b: "192 + (of_char c :: nat) div 64 < 256"
    using of_char_div_64 [of c] by simp
  have c: "128 + (of_char c :: nat) mod 64 < 256"
    using mod_less_divisor [of 64 "of_char c"] by linarith
  have "encode_char c = [of_nat (192 + of_char c div 64), of_nat (128 + of_char c mod 64)]"
    using False by (simp only: encode_char_def Let_def if_False)
  then have "map unat (encode_char c) =
      [unat (of_nat (192 + of_char c div 64) :: byte), unat (of_nat (128 + of_char c mod 64) :: byte)]"
    by (simp only: list.map)
  also have "\<dots> = [192 + of_char c div 64, 128 + of_char c mod 64]"
    by (simp only: unat_byte [OF b] unat_byte [OF c])
  finally show ?thesis
    using False by (simp only: if_False)
qed

lemma encode_char_not_Nil: "encode_char c \<noteq> []"
  by (simp add: encode_char_def Let_def)

lemma encode_char_append_inj:
  assumes "encode_char c @ xs = encode_char d @ ys"
  shows "c = d \<and> xs = ys"
proof -
  define m n :: nat where "m = of_char c" and "n = of_char d"
  from assms have "map unat (encode_char c @ xs) = map unat (encode_char d @ ys)"
    by simp
  then have eq: "(if m < 128 then [m] else [192 + m div 64, 128 + m mod 64]) @ map unat xs =
      (if n < 128 then [n] else [192 + n div 64, 128 + n mod 64]) @ map unat ys"
    unfolding m_def n_def by (simp only: map_append unat_encode_char)
  have lt: "m div 64 < 4" "n div 64 < 4" "m mod 64 < 64" "n mod 64 < 64"
    by (simp_all add: m_def n_def of_char_div_64)
  have "m = n"
  proof (cases "m < 128"; cases "n < 128")
    assume "m < 128" "n < 128"
    with eq show ?thesis by simp
  next
    assume "m < 128" "\<not> n < 128"
    with eq lt show ?thesis by simp
  next
    assume "\<not> m < 128" "n < 128"
    with eq lt show ?thesis by simp
  next
    assume "\<not> m < 128" "\<not> n < 128"
    with eq have "m div 64 = n div 64" "m mod 64 = n mod 64"
      by simp_all
    then show ?thesis
      by (metis div_mult_mod_eq)
  qed
  then have "c = d"
    by (simp add: m_def n_def)
  with assms show ?thesis
    by simp
qed

lemma encode_inj: "encode s = encode t \<Longrightarrow> s = t"
proof (induction s arbitrary: t)
  case Nil
  then show ?case
    by (cases t) (simp_all add: encode_def encode_char_not_Nil)
next
  case (Cons c s)
  show ?case
  proof (cases t)
    case Nil
    with Cons.prems show ?thesis
      by (simp add: encode_def encode_char_not_Nil)
  next
    case (Cons d t')
    with Cons.prems have "encode_char c @ encode s = encode_char d @ encode t'"
      by (simp add: encode_def)
    then have "c = d \<and> encode s = encode t'"
      by (rule encode_char_append_inj)
    with Cons.IH Cons show ?thesis
      by simp
  qed
qed

section \<open>The printing stand-in\<close>

lemma table_inj:
  assumes "a < 16" "b < 16" and eq: "''0123456789abcdef'' ! a = ''0123456789abcdef'' ! b"
  shows "a = b"
proof -
  have "digit16 (''0123456789abcdef'' ! a) = Some a"
    using assms(1) by (rule digit16_table)
  moreover have "digit16 (''0123456789abcdef'' ! b) = Some b"
    using assms(2) by (rule digit16_table)
  ultimately show ?thesis
    using eq by (metis option.inject)
qed

lemma of_char_div_16: "(of_char x :: nat) div 16 < 16"
  by (rule less_mult_imp_div_less) simp

lemma hex_pair_inj:
  assumes "[''0123456789abcdef'' ! (of_char c div 16), ''0123456789abcdef'' ! (of_char c mod 16)] =
           [''0123456789abcdef'' ! (of_char d div 16), ''0123456789abcdef'' ! (of_char d mod 16)]"
  shows "c = d"
proof -
  have lt: "(of_char x :: nat) div 16 < 16" "(of_char x :: nat) mod 16 < 16" for x :: char
    by (simp_all add: of_char_div_16)
  from assms have "(of_char c :: nat) div 16 = of_char d div 16" "(of_char c :: nat) mod 16 = of_char d mod 16"
    using table_inj lt by auto
  then have "(of_char c :: nat) = of_char d"
    by (metis div_mult_mod_eq)
  then show ?thesis
    by simp
qed

lemma hex_of_text_inj: "hex_of_text s = hex_of_text t \<Longrightarrow> s = t"
proof (induction s arbitrary: t)
  case Nil
  then show ?case
    by (cases t) (simp_all add: hex_of_text_def)
next
  case (Cons c s)
  then obtain d t' where t: "t = d # t'"
    by (cases t) (auto simp add: hex_of_text_def)
  with Cons.prems have "c = d" "hex_of_text s = hex_of_text t'"
    using hex_pair_inj [of c d] by (simp_all add: hex_of_text_def)
  with Cons.IH t show ?case
    by simp
qed

lemma table_not_isspace: "k < 16 \<Longrightarrow> \<not> isspace (''0123456789abcdef'' ! k)"
proof -
  assume "k < 16"
  then have "k \<in> {0, 1, 2, 3, 4, 5, 6, 7, 8, 9, 10, 11, 12, 13, 14, 15}"
    by (rule below_16)
  then show ?thesis
    by (elim insertE emptyE) (simp_all add: isspace_def)
qed

lemma table_not_comma: "k < 16 \<Longrightarrow> ''0123456789abcdef'' ! k \<noteq> CHR '',''"
proof -
  assume "k < 16"
  then have "k \<in> {0, 1, 2, 3, 4, 5, 6, 7, 8, 9, 10, 11, 12, 13, 14, 15}"
    by (rule below_16)
  then show ?thesis
    by (elim insertE emptyE) simp_all
qed

lemma hex_of_text_chars:
  "c \<in> set (hex_of_text s) \<Longrightarrow> c = CHR ''x'' \<or> (\<exists>k<16. c = ''0123456789abcdef'' ! k)"
proof -
  assume "c \<in> set (hex_of_text s)"
  then consider "c = CHR ''0''" | "c = CHR ''x''"
    | x where "c = ''0123456789abcdef'' ! ((of_char x :: nat) div 16)"
    | x where "c = ''0123456789abcdef'' ! ((of_char x :: nat) mod 16)"
    by (auto simp add: hex_of_text_def)
  then show ?thesis
  proof cases
    case 1
    then have "c = ''0123456789abcdef'' ! 0" by simp
    then show ?thesis by (intro disjI2 exI [of _ 0]) simp
  next
    case 2
    then show ?thesis by simp
  next
    case (3 x)
    moreover have "(of_char x :: nat) div 16 < 16"
      by (rule of_char_div_16)
    ultimately show ?thesis by blast
  next
    case (4 x)
    moreover have "(of_char x :: nat) mod 16 < 16"
      by simp
    ultimately show ?thesis by blast
  qed
qed

lemma hex_of_text_no_space: "c \<in> set (hex_of_text s) \<Longrightarrow> \<not> isspace c"
proof -
  assume "c \<in> set (hex_of_text s)"
  then have "c = CHR ''x'' \<or> (\<exists>k<16. c = ''0123456789abcdef'' ! k)"
    by (rule hex_of_text_chars)
  moreover have "\<not> isspace (CHR ''x'')"
    by (simp add: isspace_def)
  ultimately show ?thesis
    using table_not_isspace by metis
qed

lemma hex_of_text_no_comma: "CHR '','' \<notin> set (hex_of_text s)"
proof
  assume "CHR '','' \<in> set (hex_of_text s)"
  then have "\<exists>k<16. CHR '','' = ''0123456789abcdef'' ! k"
    using hex_of_text_chars [of "CHR '',''" s] by simp
  then show False
    using table_not_comma by metis
qed

lemma strip_no_space: "\<forall>c\<in>set s. \<not> isspace c \<Longrightarrow> strip s = s"
proof -
  assume a: "\<forall>c\<in>set s. \<not> isspace c"
  then have "dropWhile isspace s = s"
    by (cases s) simp_all
  moreover from a have "dropWhile isspace (rev s) = rev s"
    by (cases "rev s") (simp, metis dropWhile.simps(2) list.set_intros(1) set_rev)
  ultimately show ?thesis
    by (simp add: strip_def)
qed

lemma strip_hex_of_text: "strip (hex_of_text s) = hex_of_text s"
  by (rule strip_no_space) (simp add: hex_of_text_no_space)

section \<open>Slot separation and order sensitivity\<close>

lemma hex_of_text_no_nul: "CHR 0x00 \<notin> set (hex_of_text s)"
proof
  assume "CHR 0x00 \<in> set (hex_of_text s)"
  then have "CHR 0x00 = CHR ''x'' \<or> (\<exists>k<16. CHR 0x00 = ''0123456789abcdef'' ! k)"
    by (rule hex_of_text_chars)
  then obtain k where "k < 16" "CHR 0x00 = ''0123456789abcdef'' ! k"
    by auto
  from this(1) have "k \<in> {0, 1, 2, 3, 4, 5, 6, 7, 8, 9, 10, 11, 12, 13, 14, 15}"
    by (rule below_16)
  with \<open>CHR 0x00 = ''0123456789abcdef'' ! k\<close> show False
    by (elim insertE emptyE) simp_all
qed

lemma printing_pedersen:
  "CHR 0x00 \<notin> set a \<Longrightarrow> CHR 0x00 \<notin> set b \<Longrightarrow>
     starkli_pedersen printing_starkli a b = Inr (hex_of_text (pedersen_expr a b))"
  by (simp add: starkli_pedersen_def subprocess_run_def printing_starkli_def strip_hex_of_text
      pedersen_expr_nul)

lemma printing_pedersen_Inr:
  "starkli_pedersen printing_starkli a b = Inr h \<Longrightarrow> h = hex_of_text (pedersen_expr a b)"
  by (auto simp add: starkli_pedersen_def subprocess_run_def printing_starkli_def
      strip_hex_of_text split: if_splits)

lemma sample_slots_of_finney:
  "starkli_pedersen no_pedersen ''0x66696e6e6579'' ''0'' =
     Inr ''0x30783636363936653665363537393000000000000000000000000000000000''"
  "starkli_pedersen no_pedersen ''0x66696e6e6579'' ''1'' =
     Inr ''0x30783636363936653665363537393100000000000000000000000000000000''"
  by (simp_all add: fallback_simps)

text \<open>
  Claim C5. The commitments are separated by slot: the salt given to the hash is the text
  of the slot index itself. For an answer committed at two different slots the felt is
  the same and the salts are different texts, so the query sent to \<open>starkli\<close> and the
  bytes given to the fallback digest differ; and the two commitments differ, provided
  the hash of this felt has no collision among the salts in play, a set \<open>S\<close> of texts
  that holds the two salts (for the script, the salts \<open>0\<close>, \<open>1\<close> and \<open>2\<close>).
\<close>

theorem answer_hash_slot_separation:
  assumes "answer_hash ext i a = Inr (f, c)" and "answer_hash ext j a = Inr (f', c')" and "i \<noteq> j"
    and "str (int i) \<in> S" and "str (int j) \<in> S"
    and "\<forall>s\<in>S. \<forall>s'\<in>S. \<forall>h.
           starkli_pedersen ext f s = Inr h \<and> starkli_pedersen ext f s' = Inr h \<longrightarrow> s = s'"
  shows "f' = f \<and>
     starkli_pedersen ext f (str (int i)) = Inr c \<and>
     starkli_pedersen ext f (str (int j)) = Inr c' \<and>
     str (int i) \<noteq> str (int j) \<and>
     pedersen_expr f (str (int i)) \<noteq> pedersen_expr f (str (int j)) \<and>
     encode (f @ str (int i)) \<noteq> encode (f @ str (int j)) \<and>
     c \<noteq> c'"
proof -
  from assms(1) have 1: "starkli_to_felt ext (normalize_str a) = Inr f"
    "starkli_pedersen ext f (str (int i)) = Inr c"
    by (simp_all add: answer_hash_Inr)
  from assms(2) have 2: "starkli_to_felt ext (normalize_str a) = Inr f'"
    "starkli_pedersen ext f' (str (int j)) = Inr c'"
    by (simp_all add: answer_hash_Inr)
  from 1(1) 2(1) have ff: "f' = f"
    by simp
  have salts: "str (int i) \<noteq> str (int j)"
    using assms(3) str_inj by fastforce
  then have queries: "pedersen_expr f (str (int i)) \<noteq> pedersen_expr f (str (int j))"
    using pedersen_expr_inj_right by blast
  have bytes: "encode (f @ str (int i)) \<noteq> encode (f @ str (int j))"
    using salts encode_inj by fastforce
  have "c \<noteq> c'"
  proof
    assume "c = c'"
    with 1(2) 2(2) ff have "starkli_pedersen ext f (str (int i)) = Inr c \<and>
        starkli_pedersen ext f (str (int j)) = Inr c"
      by simp
    with assms(4,5,6) have "str (int i) = str (int j)"
      by blast
    with salts show False ..
  qed
  with 1(2) 2(2) ff salts queries bytes show ?thesis
    by simp
qed

theorem answer_hash_slot_separation_witness:
  "answer_hash no_pedersen 0 ''Finney'' =
     Inr (''0x66696e6e6579'', ''0x30783636363936653665363537393000000000000000000000000000000000'') \<and>
   answer_hash no_pedersen 2 ''Finney'' =
     Inr (''0x66696e6e6579'', ''0x30783636363936653665363537393200000000000000000000000000000000'') \<and>
   ''0x30783636363936653665363537393000000000000000000000000000000000'' \<noteq>
   ''0x30783636363936653665363537393200000000000000000000000000000000''"
proof -
  have a: "answer_hash no_pedersen 0 ''Finney'' =
     Inr (''0x66696e6e6579'', ''0x30783636363936653665363537393000000000000000000000000000000000'')"
    by (simp add: answer_hash_def no_pedersen_to_felt normalize_Finney sample_felts str_slots
        sample_slots_of_finney)
  have b: "answer_hash no_pedersen 2 ''Finney'' =
     Inr (''0x66696e6e6579'', ''0x30783636363936653665363537393200000000000000000000000000000000'')"
    by (simp add: answer_hash_def no_pedersen_to_felt normalize_Finney sample_felts str_slots
        sample_answer_hashes)
  have i: "str (int 0) \<in> {''0'', ''1'', ''2''}" and j: "str (int 2) \<in> {''0'', ''1'', ''2''}"
    by (simp_all add: str_slots)
  have inj: "\<forall>s\<in>{''0'', ''1'', ''2''}. \<forall>s'\<in>{''0'', ''1'', ''2''}. \<forall>h.
      starkli_pedersen no_pedersen ''0x66696e6e6579'' s = Inr h \<and>
      starkli_pedersen no_pedersen ''0x66696e6e6579'' s' = Inr h \<longrightarrow> s = s'"
    by (auto simp add: sample_slots_of_finney sample_answer_hashes)
  have "(0::nat) \<noteq> 2"
    by simp
  from answer_hash_slot_separation [OF a b this i j inj] a b show ?thesis
    by (intro conjI) (assumption, assumption, elim conjE)
qed

lemma pedersen_expr_inj:
  assumes "pedersen_expr a b = pedersen_expr a' b'"
    and "CHR '','' \<notin> set a" and "CHR '','' \<notin> set b"
  shows "a = a' \<and> b = b'"
proof -
  let ?x = "'' '' @ b @ '')''" and ?y = "'' '' @ b' @ '')''"
  from assms(1) have "a @ CHR '','' # ?x = a' @ CHR '','' # ?y"
    by (simp add: pedersen_expr_def)
  moreover have "CHR '','' \<notin> set ?x"
    using assms(3) by simp
  with assms(2) have "(a @ CHR '','' # ?x = a' @ CHR '','' # ?y) = (a = a' \<and> ?x = ?y)"
    by (rule append_Cons_eq_iff)
  ultimately have "a = a' \<and> ?x = ?y"
    by (rule iffD1 [rotated])
  then show ?thesis
    by simp
qed

lemma printing_collision_free:
  "\<forall>a\<in>{s. CHR '','' \<notin> set s}. \<forall>b\<in>{s. CHR '','' \<notin> set s}.
   \<forall>a'\<in>{s. CHR '','' \<notin> set s}. \<forall>b'\<in>{s. CHR '','' \<notin> set s}. \<forall>h.
     starkli_pedersen printing_starkli a b = Inr h \<and>
     starkli_pedersen printing_starkli a' b' = Inr h \<longrightarrow>
     a = a' \<and> b = b'"
proof (intro ballI allI impI)
  fix a b a' b' h
  assume "a \<in> {s. CHR '','' \<notin> set s}" "b \<in> {s. CHR '','' \<notin> set s}"
    and "starkli_pedersen printing_starkli a b = Inr h \<and>
         starkli_pedersen printing_starkli a' b' = Inr h"
  then have "hex_of_text (pedersen_expr a b) = hex_of_text (pedersen_expr a' b')"
    "CHR '','' \<notin> set a" "CHR '','' \<notin> set b"
    using printing_pedersen_Inr by fastforce+
  then have "pedersen_expr a b = pedersen_expr a' b'" "CHR '','' \<notin> set a" "CHR '','' \<notin> set b"
    by (simp_all add: hex_of_text_inj)
  then show "a = a' \<and> b = b'"
    by (rule pedersen_expr_inj)
qed

text \<open>
  Claim C4. The fold is sensitive to the order of the commitments: exchanging the first
  two gives another combined secret, for all commitments \<open>c0\<close> and \<open>c1\<close> that differ,
  as long as the hash has no collision on a set of values that holds the commitments and
  the two inner hashes. (Where neither fold returns a value there is no combined secret
  to compare.)
\<close>

theorem combined_order_sensitive:
  assumes "\<forall>a\<in>D. \<forall>b\<in>D. \<forall>a'\<in>D. \<forall>b'\<in>D. \<forall>h.
             starkli_pedersen ext a b = Inr h \<and> starkli_pedersen ext a' b' = Inr h \<longrightarrow>
             a = a' \<and> b = b'"
    and "c0 \<in> D" and "c1 \<in> D" and "c2 \<in> D"
    and "\<forall>t. starkli_pedersen ext c0 c1 = Inr t \<longrightarrow> t \<in> D"
    and "\<forall>t. starkli_pedersen ext c1 c0 = Inr t \<longrightarrow> t \<in> D"
    and "c0 \<noteq> c1"
    and "(\<exists>h. combined ext c0 c1 c2 = Inr h) \<or> (\<exists>h. combined ext c1 c0 c2 = Inr h)"
  shows "combined ext c0 c1 c2 \<noteq> combined ext c1 c0 c2"
proof
  assume eq: "combined ext c0 c1 c2 = combined ext c1 c0 c2"
  with assms(8) obtain h where h: "combined ext c0 c1 c2 = Inr h" "combined ext c1 c0 c2 = Inr h"
    by auto
  from h(1) obtain t where t: "starkli_pedersen ext c0 c1 = Inr t" "starkli_pedersen ext t c2 = Inr h"
    by (auto simp add: combined_Inr)
  from h(2) obtain t' where t': "starkli_pedersen ext c1 c0 = Inr t'" "starkli_pedersen ext t' c2 = Inr h"
    by (auto simp add: combined_Inr)
  from t(1) t'(1) assms(5,6) have "t \<in> D" "t' \<in> D"
    by blast+
  with assms(1,4) t(2) t'(2) have "t = t'"
    by blast
  with t(1) t'(1) have "starkli_pedersen ext c0 c1 = Inr t \<and> starkli_pedersen ext c1 c0 = Inr t"
    by simp
  with assms(1,2,3) have "c0 = c1"
    by blast
  with assms(7) show False ..
qed

theorem combined_order_sensitive_witness:
  "combined printing_starkli ''0x1'' ''0x2'' ''0x3'' =
     Inr (hex_of_text (pedersen_expr (hex_of_text (pedersen_expr ''0x1'' ''0x2'')) ''0x3'')) \<and>
   combined printing_starkli ''0x1'' ''0x2'' ''0x3'' \<noteq> combined printing_starkli ''0x2'' ''0x1'' ''0x3''"
proof -
  have val: "combined printing_starkli ''0x1'' ''0x2'' ''0x3'' =
     Inr (hex_of_text (pedersen_expr (hex_of_text (pedersen_expr ''0x1'' ''0x2'')) ''0x3''))"
    by (simp add: combined_def printing_pedersen hex_of_text_no_nul)
  have "''0x1'' \<in> {s. CHR '','' \<notin> set s}" "''0x2'' \<in> {s. CHR '','' \<notin> set s}"
    "''0x3'' \<in> {s. CHR '','' \<notin> set s}"
    by simp_all
  moreover have "\<forall>t. starkli_pedersen printing_starkli ''0x1'' ''0x2'' = Inr t \<longrightarrow>
      t \<in> {s. CHR '','' \<notin> set s}"
    "\<forall>t. starkli_pedersen printing_starkli ''0x2'' ''0x1'' = Inr t \<longrightarrow>
      t \<in> {s. CHR '','' \<notin> set s}"
    using printing_pedersen_Inr hex_of_text_no_comma by fastforce+
  moreover have "''0x1'' \<noteq> ''0x2''"
    by simp
  moreover have "(\<exists>h. combined printing_starkli ''0x1'' ''0x2'' ''0x3'' = Inr h) \<or>
      (\<exists>h. combined printing_starkli ''0x2'' ''0x1'' ''0x3'' = Inr h)"
    using val by blast
  ultimately have "combined printing_starkli ''0x1'' ''0x2'' ''0x3'' \<noteq>
      combined printing_starkli ''0x2'' ''0x1'' ''0x3''"
    using printing_collision_free by (rule combined_order_sensitive [rotated])
  with val show ?thesis
    by (intro conjI)
qed

section \<open>The fallback of the pairwise hash\<close>

lemma starkli_pedersen_Inr:
  "(\<exists>h. starkli_pedersen ext a b = Inr h) \<longleftrightarrow>
     CHR 0x00 \<notin> set a \<and> CHR 0x00 \<notin> set b \<and>
     (starkli ext [''parse'', pedersen_expr a b] = Failed \<or>
      (\<exists>out. starkli ext [''parse'', pedersen_expr a b] = Completed out))"
  by (cases "starkli ext [''parse'', pedersen_expr a b]")
    (auto simp add: starkli_pedersen_def subprocess_run_def pedersen_expr_nul)

lemma strip_x: "strip ''x'' = ''x''" "strip ''y'' = ''y''"
  by (simp_all add: strip_def isspace_def)

text \<open>
  Claim C9, as amended. \<open>starkli_pedersen\<close> returns a value exactly when no argument
  holds the character with code 0 and \<open>starkli\<close> runs to its end: the trimmed output when
  the exit status is 0, and, when it is not, the hexadecimal text of the first 31 bytes of
  the SHA-256 digest of the two arguments written one after the other, a number below
  \<open>2 ^ 248\<close>. In every other case it raises the exception of \<open>subprocess.run\<close>. Where it
  returns a value it is no single function of its arguments: there is another
  environment, with the same digest, in which it returns a different one.
\<close>

theorem starkli_pedersen_fallback:
  "(CHR 0x00 \<in> set a \<or> CHR 0x00 \<in> set b \<longrightarrow> starkli_pedersen ext a b = Inl ValueError) \<and>
   (CHR 0x00 \<notin> set a \<and> CHR 0x00 \<notin> set b \<longrightarrow>
      (\<forall>stdout. starkli ext [''parse'', pedersen_expr a b] = Completed stdout \<longrightarrow>
         starkli_pedersen ext a b = Inr (strip stdout)) \<and>
      (starkli ext [''parse'', pedersen_expr a b] = Failed \<longrightarrow>
         starkli_pedersen ext a b =
           Inr (hex (from_bytes_big (take 31 (sha256 ext (encode (a @ b)))))) \<and>
         (\<exists>n. int16 (hex (from_bytes_big (take 31 (sha256 ext (encode (a @ b)))))) = Some n \<and>
              0 \<le> n \<and> n < 2 ^ 248)) \<and>
      (starkli ext [''parse'', pedersen_expr a b] = NotStarted \<longrightarrow>
         starkli_pedersen ext a b = Inl OSError) \<and>
      (starkli ext [''parse'', pedersen_expr a b] = Undecodable \<longrightarrow>
         starkli_pedersen ext a b = Inl UnicodeDecodeError)) \<and>
   ((\<exists>h. starkli_pedersen ext a b = Inr h) \<longleftrightarrow>
      CHR 0x00 \<notin> set a \<and> CHR 0x00 \<notin> set b \<and>
      (starkli ext [''parse'', pedersen_expr a b] = Failed \<or>
       (\<exists>out. starkli ext [''parse'', pedersen_expr a b] = Completed out))) \<and>
   (\<forall>h. starkli_pedersen ext a b = Inr h \<longrightarrow>
      (\<exists>ext' h'. sha256 ext' = sha256 ext \<and> starkli_pedersen ext' a b = Inr h' \<and> h' \<noteq> h))"
proof (intro conjI allI impI)
  assume "CHR 0x00 \<in> set a \<or> CHR 0x00 \<in> set b"
  then show "starkli_pedersen ext a b = Inl ValueError"
    by (auto simp add: starkli_pedersen_def subprocess_run_def pedersen_expr_nul)
next
  fix stdout
  assume "CHR 0x00 \<notin> set a \<and> CHR 0x00 \<notin> set b"
    and "starkli ext [''parse'', pedersen_expr a b] = Completed stdout"
  then show "starkli_pedersen ext a b = Inr (strip stdout)"
    by (simp add: starkli_pedersen_def subprocess_run_def pedersen_expr_nul)
next
  assume "CHR 0x00 \<notin> set a \<and> CHR 0x00 \<notin> set b"
    and "starkli ext [''parse'', pedersen_expr a b] = Failed"
  then show "starkli_pedersen ext a b =
      Inr (hex (from_bytes_big (take 31 (sha256 ext (encode (a @ b))))))"
    by (simp add: starkli_pedersen_def subprocess_run_def pedersen_expr_nul fallback_def)
next
  show "\<exists>n. int16 (hex (from_bytes_big (take 31 (sha256 ext (encode (a @ b)))))) = Some n \<and>
      0 \<le> n \<and> n < 2 ^ 248"
    using from_bytes_big_take_31 by (simp add: int16_hex)
next
  assume "CHR 0x00 \<notin> set a \<and> CHR 0x00 \<notin> set b"
    and "starkli ext [''parse'', pedersen_expr a b] = NotStarted"
  then show "starkli_pedersen ext a b = Inl OSError"
    by (simp add: starkli_pedersen_def subprocess_run_def pedersen_expr_nul)
next
  assume "CHR 0x00 \<notin> set a \<and> CHR 0x00 \<notin> set b"
    and "starkli ext [''parse'', pedersen_expr a b] = Undecodable"
  then show "starkli_pedersen ext a b = Inl UnicodeDecodeError"
    by (simp add: starkli_pedersen_def subprocess_run_def pedersen_expr_nul)
next
  show "(\<exists>h. starkli_pedersen ext a b = Inr h) \<longleftrightarrow>
      CHR 0x00 \<notin> set a \<and> CHR 0x00 \<notin> set b \<and>
      (starkli ext [''parse'', pedersen_expr a b] = Failed \<or>
       (\<exists>out. starkli ext [''parse'', pedersen_expr a b] = Completed out))"
    by (rule starkli_pedersen_Inr)
next
  fix h
  assume ret: "starkli_pedersen ext a b = Inr h"
  then have nul: "CHR 0x00 \<notin> set a" "CHR 0x00 \<notin> set b"
    using starkli_pedersen_Inr [of ext a b] by blast+
  let ?other = "\<lambda>out. ext\<lparr>starkli := (\<lambda>args. Completed out)\<rparr>"
  have x: "starkli_pedersen (?other ''x'') a b = Inr ''x''"
    and y: "starkli_pedersen (?other ''y'') a b = Inr ''y''"
    using nul by (simp_all add: starkli_pedersen_def subprocess_run_def pedersen_expr_nul strip_x)
  show "\<exists>ext' h'. sha256 ext' = sha256 ext \<and> starkli_pedersen ext' a b = Inr h' \<and> h' \<noteq> h"
  proof (cases "h = ''x''")
    case True
    then have "''y'' \<noteq> h"
      by simp
    moreover have "sha256 (?other ''y'') = sha256 ext"
      by simp
    ultimately show ?thesis
      using y by blast
  next
    case False
    then have "''x'' \<noteq> h"
      by simp
    moreover have "sha256 (?other ''x'') = sha256 ext"
      by simp
    ultimately show ?thesis
      using x by blast
  qed
qed

theorem starkli_pedersen_fallback_witness:
  "starkli no_pedersen [''parse'', pedersen_expr ''0x32303132'' ''1''] = Failed \<and>
   starkli_pedersen no_pedersen ''0x32303132'' ''1'' =
     Inr (hex (from_bytes_big (take 31 (sha256 no_pedersen (encode (''0x32303132'' @ ''1'')))))) \<and>
   starkli_pedersen no_pedersen ''0x32303132'' ''1'' =
     Inr ''0x30783332333033313332310000000000000000000000000000000000000000'' \<and>
   starkli printing_starkli [''parse'', pedersen_expr ''0x32303132'' ''1''] =
     Completed ''0x706564657273656e28307833323330333133322c203129'' \<and>
   starkli_pedersen printing_starkli ''0x32303132'' ''1'' =
     Inr (strip ''0x706564657273656e28307833323330333133322c203129'') \<and>
   starkli_pedersen printing_starkli ''0x32303132'' ''1'' \<noteq>
     starkli_pedersen no_pedersen ''0x32303132'' ''1'' \<and>
   starkli no_starkli [''parse'', pedersen_expr ''0x32303132'' ''1''] = NotStarted \<and>
   starkli_pedersen no_starkli ''0x32303132'' ''1'' = Inl OSError"
proof -
  have nul: "CHR 0x00 \<notin> set ''0x32303132'' \<and> CHR 0x00 \<notin> set ''1''"
    by simp
  have fails: "starkli no_pedersen [''parse'', pedersen_expr ''0x32303132'' ''1''] = Failed"
    by (simp add: no_pedersen_def)
  from starkli_pedersen_fallback [of "''0x32303132''" "''1''" no_pedersen] nul fails
  have fb: "starkli_pedersen no_pedersen ''0x32303132'' ''1'' =
     Inr (hex (from_bytes_big (take 31 (sha256 no_pedersen (encode (''0x32303132'' @ ''1''))))))"
    by blast
  have prints: "starkli printing_starkli [''parse'', pedersen_expr ''0x32303132'' ''1''] =
     Completed ''0x706564657273656e28307833323330333133322c203129''"
    by (simp add: printing_starkli_def hex_of_text_def pedersen_expr_def)
  from starkli_pedersen_fallback [of "''0x32303132''" "''1''" printing_starkli] nul prints
  have pr: "starkli_pedersen printing_starkli ''0x32303132'' ''1'' =
     Inr (strip ''0x706564657273656e28307833323330333133322c203129'')"
    by blast
  have absent: "starkli no_starkli [''parse'', pedersen_expr ''0x32303132'' ''1''] = NotStarted"
    by (simp add: no_starkli_def)
  from starkli_pedersen_fallback [of "''0x32303132''" "''1''" no_starkli] nul absent
  have ns: "starkli_pedersen no_starkli ''0x32303132'' ''1'' = Inl OSError"
    by blast
  have known: "starkli_pedersen no_pedersen ''0x32303132'' ''1'' =
     Inr ''0x30783332333033313332310000000000000000000000000000000000000000''"
    by (simp add: sample_answer_hashes)
  have "strip ''0x706564657273656e28307833323330333133322c203129'' \<noteq>
     ''0x30783332333033313332310000000000000000000000000000000000000000''"
    by (simp add: strip_def isspace_def)
  then have "starkli_pedersen printing_starkli ''0x32303132'' ''1'' \<noteq>
     starkli_pedersen no_pedersen ''0x32303132'' ''1''"
    by (simp add: pr known)
  with fails fb known prints pr absent ns show ?thesis
    by (intro conjI)
qed

text \<open>
  Claim C9 as stated fails: \<open>starkli_pedersen\<close> does not return a value for every pair of
  arguments. On a machine without \<open>starkli\<close> the call raises \<open>FileNotFoundError\<close>, an
  \<open>OSError\<close>, and an argument that holds the character with code 0 raises \<open>ValueError\<close>
  whatever \<open>starkli\<close> does; the function catches neither.
\<close>

theorem starkli_pedersen_raises_counterexample:
  "starkli_pedersen no_starkli ''0x32303132'' ''1'' = Inl OSError \<and>
   starkli_pedersen no_pedersen [CHR 0x00] ''1'' = Inl ValueError \<and>
   starkli_pedersen printing_starkli [CHR 0x00] ''1'' = Inl ValueError"
  by (simp add: starkli_pedersen_def subprocess_run_def no_starkli_def pedersen_expr_def)

section \<open>Runs of the script\<close>

lemma no_pedersen_writable: "writable no_pedersen path"
  by (simp add: no_pedersen_def)

lemma setup_py_failed:
  "compute_hashes ext cfg = Inl e \<Longrightarrow> setup_py ext cfg = \<lparr>files = [], outcome = Inl e\<rparr>"
  by (simp add: setup_py_def)

lemma setup_py_files:
  assumes "compute_hashes ext cfg = Inr v"
  shows "files (setup_py ext cfg) = [] \<or>
         files (setup_py ext cfg) = [(''frontend/config.js'', env_content cfg (username_hash v))] \<or>
         files (setup_py ext cfg) =
           [(''frontend/config.js'', env_content cfg (username_hash v)),
            (''scripts/test_recovery.sh'', recovery_test v)]"
  using assms by (simp add: setup_py_def Let_def split: sum.splits)

lemma setup_py_Inr:
  assumes "outcome (setup_py ext cfg) = Inr r"
  shows "compute_hashes ext cfg = Inr (computed r) \<and>
         test_loop ext (answer_hashes (computed r)) 0 test_answers = Inr (tests r) \<and>
         deploy r = deploy_cmd cfg (computed r) \<and>
         files (setup_py ext cfg) =
           [(''frontend/config.js'', env_content cfg (username_hash (computed r))),
            (''scripts/test_recovery.sh'', recovery_test (computed r))]"
  using assms by (auto simp add: setup_py_def Let_def split: sum.splits if_splits)

lemma sample_test_loop:
  "test_loop no_pedersen (answer_hashes sample_hashes) 0 test_answers =
     Inr [(''denis'', ''0x30783634363536653639373330000000000000000000000000000000000000'', False),
          (''2012'', ''0x30783332333033313332310000000000000000000000000000000000000000'', True),
          (''finney'', ''0x30783636363936653665363537393200000000000000000000000000000000'', True)]"
  by (simp add: test_answers_def no_pedersen_to_felt sample_felts str_slots sample_answer_hashes
      sample_hashes_def)

lemma setup_py_sample:
  "setup_py no_pedersen user_config =
     \<lparr>files = [(''frontend/config.js'', env_content user_config ''0x616c696365''),
               (''scripts/test_recovery.sh'', recovery_test sample_hashes)],
      outcome = Inr \<lparr>computed = sample_hashes,
                      deploy = deploy_cmd user_config sample_hashes,
                      tests =
         [(''denis'', ''0x30783634363536653639373330000000000000000000000000000000000000'', False),
          (''2012'', ''0x30783332333033313332310000000000000000000000000000000000000000'', True),
          (''finney'', ''0x30783636363936653665363537393200000000000000000000000000000000'', True)]\<rparr>\<rparr>"
proof -
  have "username_hash sample_hashes = ''0x616c696365''"
    by (simp add: sample_hashes_def)
  then show ?thesis
    by (simp add: setup_py_def compute_hashes_sample sample_test_loop no_pedersen_writable)
qed

lemma user_config_answer_hashes:
  assumes "compute_hashes ext user_config = Inr v"
  shows "\<exists>f0 f1 f2 h0 h1 h2.
     starkli_to_felt ext ''denis guedj'' = Inr f0 \<and>
     starkli_to_felt ext ''2012'' = Inr f1 \<and>
     starkli_to_felt ext ''finney'' = Inr f2 \<and>
     starkli_pedersen ext f0 ''0'' = Inr h0 \<and>
     starkli_pedersen ext f1 ''1'' = Inr h1 \<and>
     starkli_pedersen ext f2 ''2'' = Inr h2 \<and>
     answer_hashes v = [h0, h1, h2]"
proof -
  from compute_hashes_Inr [OF assms]
  have "answer_loop ext 0 [''Denis Guedj'', ''2012'', ''Finney''] = Inr (answer_felts v, answer_hashes v)"
    by (auto simp add: user_config_def)
  then show ?thesis
    by (auto simp add: answer_hash_def sample_normalize normalize_Finney str_slots
        split: sum.splits)
qed

text \<open>
  Claim C7. The answer \<open>Finney\<close> written with a trailing space or in capitals is
  normalised to \<open>finney\<close> before it is converted and hashed, so at every slot it gives
  the same felt and the same commitment as \<open>Finney\<close> itself; at the third slot this is
  the commitment that a run on the user configuration stores for the third answer.
\<close>

theorem answer_hash_Finney_variants:
  "answer_hash ext i ''Finney '' = answer_hash ext i ''Finney'' \<and>
   answer_hash ext i ''FINNEY'' = answer_hash ext i ''Finney'' \<and>
   answer_hash ext i (normalize_str a) = answer_hash ext i a \<and>
   (compute_hashes ext user_config = Inr v \<longrightarrow>
      answer_hash ext 2 ''Finney '' = Inr (answer_felts v ! 2, answer_hashes v ! 2) \<and>
      answer_hash ext 2 ''FINNEY'' = Inr (answer_felts v ! 2, answer_hashes v ! 2))"
proof (intro conjI impI)
  show trailing: "answer_hash ext i ''Finney '' = answer_hash ext i ''Finney''" for i
    by (simp add: answer_hash_def normalize_Finney)
  show capitals: "answer_hash ext i ''FINNEY'' = answer_hash ext i ''Finney''" for i
    by (simp add: answer_hash_def normalize_Finney)
  show "answer_hash ext i (normalize_str a) = answer_hash ext i a"
    by (simp add: answer_hash_def normalize_str_idem)
  assume run: "compute_hashes ext user_config = Inr v"
  from compute_hashes_Inr [OF run]
  have "answer_loop ext 0 (ANSWERS user_config) = Inr (answer_felts v, answer_hashes v)"
    by blast
  from answer_loop_nth [OF this]
  have "\<forall>i<length (ANSWERS user_config).
      answer_hash ext (0 + i) (ANSWERS user_config ! i) = Inr (answer_felts v ! i, answer_hashes v ! i)"
    by (elim conjE)
  then have "2 < length (ANSWERS user_config) \<longrightarrow>
      answer_hash ext (0 + 2) (ANSWERS user_config ! 2) = Inr (answer_felts v ! 2, answer_hashes v ! 2)"
    by (rule spec)
  then have stored: "answer_hash ext 2 ''Finney'' = Inr (answer_felts v ! 2, answer_hashes v ! 2)"
    by (simp add: user_config_def numeral_2_eq_2)
  show "answer_hash ext 2 ''Finney '' = Inr (answer_felts v ! 2, answer_hashes v ! 2)"
    using trailing [of 2] stored by (rule trans)
  show "answer_hash ext 2 ''FINNEY'' = Inr (answer_felts v ! 2, answer_hashes v ! 2)"
    using capitals [of 2] stored by (rule trans)
qed

theorem answer_hash_Finney_variants_witness:
  "compute_hashes no_pedersen user_config = Inr sample_hashes \<and>
   answer_hash no_pedersen 2 ''Finney '' =
     Inr (''0x66696e6e6579'', ''0x30783636363936653665363537393200000000000000000000000000000000'') \<and>
   answer_hash no_pedersen 2 ''FINNEY'' =
     Inr (''0x66696e6e6579'', ''0x30783636363936653665363537393200000000000000000000000000000000'')"
proof -
  from answer_hash_Finney_variants [where ext = no_pedersen and v = sample_hashes]
  have "compute_hashes no_pedersen user_config = Inr sample_hashes \<longrightarrow>
      answer_hash no_pedersen 2 ''Finney '' =
        Inr (answer_felts sample_hashes ! 2, answer_hashes sample_hashes ! 2) \<and>
      answer_hash no_pedersen 2 ''FINNEY'' =
        Inr (answer_felts sample_hashes ! 2, answer_hashes sample_hashes ! 2)"
    by blast
  with compute_hashes_sample show ?thesis
    by (simp add: sample_hashes_def)
qed

text \<open>
  Claim C10. In a run on the user configuration that reaches its last line, the hash
  verification test compares, at slot 0, the commitment of \<open>denis\<close> with the stored
  commitment of \<open>denis guedj\<close>, the normalised first answer, and reports whether the two
  are equal; the checks of \<open>2012\<close> and \<open>finney\<close> at slots 1 and 2 report a match. So
  the first check reports a mismatch whenever the felt conversion tells the two texts
  apart and the hash at salt \<open>0\<close> does not map the two felts to one value.
\<close>

theorem self_test_of_user_config:
  assumes "outcome (setup_py ext user_config) = Inr r"
  shows "\<exists>f_test f_stored h_test.
     starkli_to_felt ext ''denis'' = Inr f_test \<and>
     starkli_to_felt ext (normalize_str (ANSWERS user_config ! 0)) = Inr f_stored \<and>
     normalize_str (ANSWERS user_config ! 0) = ''denis guedj'' \<and>
     starkli_pedersen ext f_stored ''0'' = Inr (answer_hashes (computed r) ! 0) \<and>
     starkli_pedersen ext f_test ''0'' = Inr h_test \<and>
     tests r =
       [(''denis'', h_test, h_test = answer_hashes (computed r) ! 0),
        (''2012'', answer_hashes (computed r) ! 1, True),
        (''finney'', answer_hashes (computed r) ! 2, True)] \<and>
     (f_test \<noteq> f_stored \<and>
      (starkli_pedersen ext f_test ''0'' = starkli_pedersen ext f_stored ''0'' \<longrightarrow>
         f_test = f_stored) \<longrightarrow>
        map (\<lambda>(ans, test_hash, matches). matches) (tests r) = [False, True, True])"
proof -
  from setup_py_Inr [OF assms] have
    run: "compute_hashes ext user_config = Inr (computed r)" and
    loop: "test_loop ext (answer_hashes (computed r)) 0 test_answers = Inr (tests r)"
    by simp_all
  from user_config_answer_hashes [OF run] obtain f0 f1 f2 h0 h1 h2 where
    f: "starkli_to_felt ext ''denis guedj'' = Inr f0" "starkli_to_felt ext ''2012'' = Inr f1"
      "starkli_to_felt ext ''finney'' = Inr f2" and
    h: "starkli_pedersen ext f0 ''0'' = Inr h0" "starkli_pedersen ext f1 ''1'' = Inr h1"
      "starkli_pedersen ext f2 ''2'' = Inr h2" and
    hs: "answer_hashes (computed r) = [h0, h1, h2]"
    by blast
  from loop obtain ft where ft: "starkli_to_felt ext ''denis'' = Inr ft"
    by (auto simp add: test_answers_def split: sum.splits)
  with loop obtain ht where ht: "starkli_pedersen ext ft ''0'' = Inr ht"
    by (auto simp add: test_answers_def str_slots split: sum.splits)
  from loop have t: "tests r =
       [(''denis'', ht, ht = h0), (''2012'', h1, True), (''finney'', h2, True)]"
    by (auto simp add: test_answers_def hs f h ft ht str_slots Let_def)
  have n: "normalize_str (ANSWERS user_config ! 0) = ''denis guedj''"
    by (simp add: user_config_def sample_normalize)
  have imp: "ft \<noteq> f0 \<and>
      (starkli_pedersen ext ft ''0'' = starkli_pedersen ext f0 ''0'' \<longrightarrow> ft = f0) \<longrightarrow>
        map (\<lambda>(ans, test_hash, matches). matches) (tests r) = [False, True, True]"
  proof
    assume "ft \<noteq> f0 \<and>
      (starkli_pedersen ext ft ''0'' = starkli_pedersen ext f0 ''0'' \<longrightarrow> ft = f0)"
    then have "starkli_pedersen ext ft ''0'' \<noteq> starkli_pedersen ext f0 ''0''"
      by blast
    then have "ht \<noteq> h0"
      by (simp add: ht h)
    then show "map (\<lambda>(ans, test_hash, matches). matches) (tests r) = [False, True, True]"
      by (simp add: t)
  qed
  have "starkli_to_felt ext ''denis'' = Inr ft \<and>
     starkli_to_felt ext (normalize_str (ANSWERS user_config ! 0)) = Inr f0 \<and>
     normalize_str (ANSWERS user_config ! 0) = ''denis guedj'' \<and>
     starkli_pedersen ext f0 ''0'' = Inr (answer_hashes (computed r) ! 0) \<and>
     starkli_pedersen ext ft ''0'' = Inr ht \<and>
     tests r =
       [(''denis'', ht, ht = answer_hashes (computed r) ! 0),
        (''2012'', answer_hashes (computed r) ! 1, True),
        (''finney'', answer_hashes (computed r) ! 2, True)] \<and>
     (ft \<noteq> f0 \<and>
      (starkli_pedersen ext ft ''0'' = starkli_pedersen ext f0 ''0'' \<longrightarrow> ft = f0) \<longrightarrow>
        map (\<lambda>(ans, test_hash, matches). matches) (tests r) = [False, True, True])"
    using imp by (simp add: ft f n t hs h ht)
  then show ?thesis
    by (intro exI)
qed

theorem self_test_of_user_config_witness:
  "outcome (setup_py no_pedersen user_config) =
     Inr \<lparr>computed = sample_hashes,
          deploy = deploy_cmd user_config sample_hashes,
          tests =
         [(''denis'', ''0x30783634363536653639373330000000000000000000000000000000000000'', False),
          (''2012'', ''0x30783332333033313332310000000000000000000000000000000000000000'', True),
          (''finney'', ''0x30783636363936653665363537393200000000000000000000000000000000'', True)]\<rparr> \<and>
   starkli_to_felt no_pedersen ''denis'' = Inr ''0x64656e6973'' \<and>
   starkli_to_felt no_pedersen ''denis guedj'' = Inr ''0x64656e697320677565646a'' \<and>
   starkli_pedersen no_pedersen ''0x64656e6973'' ''0'' \<noteq>
     starkli_pedersen no_pedersen ''0x64656e697320677565646a'' ''0'' \<and>
   map (\<lambda>(ans, test_hash, matches). matches)
     (tests \<lparr>computed = sample_hashes,
          deploy = deploy_cmd user_config sample_hashes,
          tests =
         [(''denis'', ''0x30783634363536653639373330000000000000000000000000000000000000'', False),
          (''2012'', ''0x30783332333033313332310000000000000000000000000000000000000000'', True),
          (''finney'', ''0x30783636363936653665363537393200000000000000000000000000000000'', True)]\<rparr>) =
     [False, True, True]"
proof -
  let ?r = "\<lparr>computed = sample_hashes,
          deploy = deploy_cmd user_config sample_hashes,
          tests =
         [(''denis'', ''0x30783634363536653639373330000000000000000000000000000000000000'', False),
          (''2012'', ''0x30783332333033313332310000000000000000000000000000000000000000'', True),
          (''finney'', ''0x30783636363936653665363537393200000000000000000000000000000000'', True)]\<rparr>"
  have run: "outcome (setup_py no_pedersen user_config) = Inr ?r"
    by (simp add: setup_py_sample)
  from self_test_of_user_config [OF run] obtain ft f0 where
    ft: "starkli_to_felt no_pedersen ''denis'' = Inr ft" and
    f0: "starkli_to_felt no_pedersen (normalize_str (ANSWERS user_config ! 0)) = Inr f0" and
    n: "normalize_str (ANSWERS user_config ! 0) = ''denis guedj''" and
    imp: "ft \<noteq> f0 \<and>
      (starkli_pedersen no_pedersen ft ''0'' = starkli_pedersen no_pedersen f0 ''0'' \<longrightarrow> ft = f0) \<longrightarrow>
        map (\<lambda>(ans, test_hash, matches). matches) (tests ?r) = [False, True, True]"
    by (elim exE conjE) (rule that)
  from ft have ft': "ft = ''0x64656e6973''"
    by (simp add: no_pedersen_to_felt sample_felts)
  from f0 have f0': "f0 = ''0x64656e697320677565646a''"
    by (simp add: n no_pedersen_to_felt sample_felts)
  have differ: "starkli_pedersen no_pedersen ''0x64656e6973'' ''0'' \<noteq>
     starkli_pedersen no_pedersen ''0x64656e697320677565646a'' ''0''"
    by (simp add: sample_answer_hashes)
  have "ft \<noteq> f0"
    by (simp add: ft' f0')
  with imp differ have "map (\<lambda>(ans, test_hash, matches). matches) (tests ?r) = [False, True, True]"
    unfolding ft' f0' by blast
  with run differ show ?thesis
    by (simp add: no_pedersen_to_felt sample_felts)
qed

lemma sublist_skip: "sublist xs zs \<Longrightarrow> sublist xs (ys @ zs)"
  by (auto simp add: sublist_def) (metis append.assoc)

lemma env_content_carries:
  "sublist (USERNAME cfg) (env_content cfg uh)"
  "sublist uh (env_content cfg uh)"
  "sublist (str (SONG_DURATION cfg)) (env_content cfg uh)"
  "sublist (ANSWERS cfg ! 0) (env_content cfg uh)"
  "sublist (ANSWERS cfg ! 1) (env_content cfg uh)"
  "sublist (ANSWERS cfg ! 2) (env_content cfg uh)"
  unfolding env_content_def
  by ((rule sublist_append_rightI | rule sublist_skip)+)

lemma env_content_MASTER_KEY:
  "env_content (cfg\<lparr>MASTER_KEY := key\<rparr>) uh = env_content cfg uh"
  by (simp add: env_content_def)

lemma config_js_written:
  assumes "(''frontend/config.js'', content) \<in> set (files (setup_py ext cfg))"
  shows "\<exists>v. compute_hashes ext cfg = Inr v \<and> content = env_content cfg (username_hash v)"
proof (cases "compute_hashes ext cfg")
  case (Inl e)
  with assms show ?thesis
    by (simp add: setup_py_failed)
next
  case (Inr v)
  from setup_py_files [OF Inr] assms have "content = env_content cfg (username_hash v)"
    by auto
  with Inr show ?thesis
    by simp
qed

text \<open>
  Claim C1, as amended. The text written to \<open>frontend/config.js\<close> is \<open>env_content\<close>: it
  carries the user name, the user name's felt, the song duration and, as test data, the
  three answers in plain text. It carries nothing of the master key: a run with any other
  master key writes the same text.
\<close>

theorem config_js_carries_answers_not_key:
  assumes "(''frontend/config.js'', content) \<in> set (files (setup_py ext cfg))"
  shows "(\<exists>uh. starkli_to_felt ext (normalize_str (USERNAME cfg)) = Inr uh \<and>
            content = env_content cfg uh \<and> sublist uh content) \<and>
     sublist (USERNAME cfg) content \<and>
     sublist (str (SONG_DURATION cfg)) content \<and>
     3 \<le> length (ANSWERS cfg) \<and>
     sublist (ANSWERS cfg ! 0) content \<and>
     sublist (ANSWERS cfg ! 1) content \<and>
     sublist (ANSWERS cfg ! 2) content \<and>
     (\<forall>key content'.
        (''frontend/config.js'', content') \<in> set (files (setup_py ext (cfg\<lparr>MASTER_KEY := key\<rparr>))) \<longrightarrow>
        content' = content)"
proof -
  from config_js_written [OF assms] obtain v where
    v: "compute_hashes ext cfg = Inr v" and c: "content = env_content cfg (username_hash v)"
    by blast
  from compute_hashes_Inr [OF v] have
    uh: "starkli_to_felt ext (normalize_str (USERNAME cfg)) = Inr (username_hash v)" and
    loop: "answer_loop ext 0 (ANSWERS cfg) = Inr (answer_felts v, answer_hashes v)" and
    three: "3 \<le> length (answer_hashes v)"
    by blast+
  from answer_loop_nth [OF loop] three have len: "3 \<le> length (ANSWERS cfg)"
    by simp
  have other: "content' = content"
    if "(''frontend/config.js'', content') \<in> set (files (setup_py ext (cfg\<lparr>MASTER_KEY := key\<rparr>)))"
    for key content'
  proof -
    from config_js_written [OF that] obtain v' where
      v': "compute_hashes ext (cfg\<lparr>MASTER_KEY := key\<rparr>) = Inr v'" and
      c': "content' = env_content (cfg\<lparr>MASTER_KEY := key\<rparr>) (username_hash v')"
      by blast
    from compute_hashes_Inr [OF v'] have
      "starkli_to_felt ext (normalize_str (USERNAME cfg)) = Inr (username_hash v')"
      by auto
    with uh have "username_hash v' = username_hash v"
      by simp
    with c c' show ?thesis
      by (simp add: env_content_MASTER_KEY)
  qed
  have 1: "\<exists>uh. starkli_to_felt ext (normalize_str (USERNAME cfg)) = Inr uh \<and>
            content = env_content cfg uh \<and> sublist uh content"
    using uh c env_content_carries(2) by blast
  have 2: "sublist (USERNAME cfg) content" and 3: "sublist (str (SONG_DURATION cfg)) content"
    and 4: "sublist (ANSWERS cfg ! 0) content" and 5: "sublist (ANSWERS cfg ! 1) content"
    and 6: "sublist (ANSWERS cfg ! 2) content"
    unfolding c by (rule env_content_carries)+
  have 7: "\<forall>key content'.
        (''frontend/config.js'', content') \<in> set (files (setup_py ext (cfg\<lparr>MASTER_KEY := key\<rparr>))) \<longrightarrow>
        content' = content"
    using other by blast
  show ?thesis
    using 1 2 3 len 4 5 6 7 by (intro conjI) assumption+
qed

lemma user_config_answers:
  "ANSWERS user_config ! 0 = ''Denis Guedj''" "ANSWERS user_config ! 1 = ''2012''"
  "ANSWERS user_config ! 2 = ''Finney''"
  by (simp_all add: user_config_def)

lemma compute_hashes_sample_key:
  assumes "int16 key = Some k"
  shows "compute_hashes no_pedersen (user_config\<lparr>MASTER_KEY := key\<rparr>) =
     Inr (sample_hashes\<lparr>encrypted_key :=
       hex (encrypt k 0x30783330373833333330333733383333333633333334333333363333333533)\<rparr>)"
proof -
  have "answer_loop no_pedersen 0 (ANSWERS user_config) =
     Inr (answer_felts sample_hashes, answer_hashes sample_hashes)"
    using sample_answer_loop by (simp add: user_config_def)
  moreover have "starkli_to_felt no_pedersen (normalize_str (USERNAME user_config)) = Inr ''0x616c696365''"
    by (simp add: user_config_def no_pedersen_to_felt sample_normalize sample_felts)
  ultimately show ?thesis
    unfolding compute_hashes_def using assms
    by (simp add: sample_ints sample_hashes_def sample_combined)
qed

lemma config_js_sample_key:
  assumes "int16 key = Some k"
  shows "(''frontend/config.js'', env_content user_config ''0x616c696365'') \<in>
     set (files (setup_py no_pedersen (user_config\<lparr>MASTER_KEY := key\<rparr>)))"
proof -
  have "username_hash sample_hashes = ''0x616c696365''"
    by (simp add: sample_hashes_def)
  then show ?thesis
    by (simp add: setup_py_def compute_hashes_sample_key [OF assms] sample_test_loop
        env_content_MASTER_KEY no_pedersen_writable)
qed

lemma int16_0xff: "int16 ''0xff'' = Some 255"
  by (simp add: int16_def int_space_def digit16_def)

lemma master_key_absent:
  "\<not> sublist (MASTER_KEY user_config) (env_content user_config ''0x616c696365'')"
  by (simp add: user_config_def env_content_def nl_def quote_def str_def dec_digits.simps
      sublist_Cons_right)

theorem config_js_carries_answers_not_key_witness:
  "(''frontend/config.js'', env_content user_config ''0x616c696365'') \<in>
     set (files (setup_py no_pedersen user_config)) \<and>
   (''frontend/config.js'', env_content user_config ''0x616c696365'') \<in>
     set (files (setup_py no_pedersen (user_config\<lparr>MASTER_KEY := ''0xff''\<rparr>))) \<and>
   ANSWERS user_config ! 2 = ''Finney'' \<and>
   sublist ''Finney'' (env_content user_config ''0x616c696365'') \<and>
   \<not> sublist (MASTER_KEY user_config) (env_content user_config ''0x616c696365'')"
proof -
  have w: "(''frontend/config.js'', env_content user_config ''0x616c696365'') \<in>
     set (files (setup_py no_pedersen user_config))"
    by (simp add: setup_py_sample)
  have o: "(''frontend/config.js'', env_content user_config ''0x616c696365'') \<in>
     set (files (setup_py no_pedersen (user_config\<lparr>MASTER_KEY := ''0xff''\<rparr>)))"
    using int16_0xff by (rule config_js_sample_key)
  from config_js_carries_answers_not_key [OF w]
  have "sublist (ANSWERS user_config ! 2) (env_content user_config ''0x616c696365'')"
    by (elim conjE)
  then have "sublist ''Finney'' (env_content user_config ''0x616c696365'')"
    by (simp only: user_config_answers)
  with w o user_config_answers(3) master_key_absent show ?thesis
    by (intro conjI)
qed

text \<open>
  Claim C1 as stated fails: the run on the user configuration writes a
  \<open>frontend/config.js\<close> that holds each of the three answers in plain text.
\<close>

theorem config_js_counterexample:
  "files (setup_py no_pedersen user_config) =
     [(''frontend/config.js'', env_content user_config ''0x616c696365''),
      (''scripts/test_recovery.sh'', recovery_test sample_hashes)] \<and>
   ANSWERS user_config = [''Denis Guedj'', ''2012'', ''Finney''] \<and>
   sublist ''Denis Guedj'' (env_content user_config ''0x616c696365'') \<and>
   sublist ''2012'' (env_content user_config ''0x616c696365'') \<and>
   sublist ''Finney'' (env_content user_config ''0x616c696365'')"
proof -
  have f: "files (setup_py no_pedersen user_config) =
     [(''frontend/config.js'', env_content user_config ''0x616c696365''),
      (''scripts/test_recovery.sh'', recovery_test sample_hashes)]"
    by (simp add: setup_py_sample)
  have a: "ANSWERS user_config = [''Denis Guedj'', ''2012'', ''Finney'']"
    by (simp add: user_config_def)
  have "sublist (ANSWERS user_config ! 0) (env_content user_config ''0x616c696365'')"
    "sublist (ANSWERS user_config ! 1) (env_content user_config ''0x616c696365'')"
    "sublist (ANSWERS user_config ! 2) (env_content user_config ''0x616c696365'')"
    by (rule env_content_carries)+
  then have "sublist ''Denis Guedj'' (env_content user_config ''0x616c696365'')"
    "sublist ''2012'' (env_content user_config ''0x616c696365'')"
    "sublist ''Finney'' (env_content user_config ''0x616c696365'')"
    by (simp_all only: user_config_answers)
  with f a show ?thesis
    by (intro conjI)
qed


section \<open>Texts without the character 0\<close>










section \<open>Runs in which starkli runs to its end\<close>




lemma answer_loop_fails:
  assumes "i < length as" and "answer_hash ext (k + i) (as ! i) = Inl e0"
  shows "\<exists>e. answer_loop ext k as = Inl e"
  using assms
proof (induction as arbitrary: k i)
  case Nil
  then show ?case by simp
next
  case (Cons b as)
  show ?case
  proof (cases "answer_hash ext k b")
    case (Inl e)
    then show ?thesis by simp
  next
    case (Inr p)
    with Cons.prems obtain i' where i': "i = Suc i'"
      by (cases i) auto
    with Cons.prems have "i' < length as" "answer_hash ext (Suc k + i') (as ! i') = Inl e0"
      by simp_all
    then obtain e where "answer_loop ext (Suc k) as = Inl e"
      using Cons.IH by blast
    with Inr show ?thesis
      by (cases p) simp
  qed
qed









section \<open>A run in which one pedersen call succeeds\<close>














end
